theory Spec2Isabelle
  imports Main
begin

section \<open>Shared vocabulary\<close>

text \<open>
  Timestamps are JavaScript \<^verbatim>\<open>Date\<close> values: integer milliseconds since the Unix epoch,
  so the epoch \<^verbatim>\<open>'1970-01-01'::timestamptz\<close> is \<open>0\<close>.
\<close>

type_synonym timestamp = int

text \<open>
  A value caught by a \<^verbatim>\<open>catch\<close> clause. \<open>ErrorObj code message\<close> is an instance of
  \<^verbatim>\<open>Error\<close>: \<open>err_code\<close> is the failure class the throwing library attaches (Prisma's
  \<^verbatim>\<open>P2002\<close> for a uniqueness violation, an HTTP status, ...), \<open>err_message\<close> is
  \<^verbatim>\<open>err.message\<close>. \<open>NonError\<close> is any thrown value that is not an \<^verbatim>\<open>Error\<close>.
\<close>

datatype thrown = ErrorObj (err_code: string) (err_message: string) | NonError

fun startsWith :: "string \<Rightarrow> string \<Rightarrow> bool" where
  "startsWith s [] = True"
| "startsWith [] (p # ps) = False"
| "startsWith (c # cs) (p # ps) = (c = p \<and> startsWith cs ps)"

text \<open>\<^verbatim>\<open>String.prototype.includes\<close>: the pattern occurs somewhere in the string.\<close>

fun str_includes :: "string \<Rightarrow> string \<Rightarrow> bool" where
  "str_includes [] pat = (pat = [])"
| "str_includes (c # cs) pat = (startsWith (c # cs) pat \<or> str_includes cs pat)"

text \<open>\<^verbatim>\<open>x || d\<close> on a nullable string: \<^verbatim>\<open>null\<close> and the empty string are falsy.\<close>

fun str_or :: "string option \<Rightarrow> string \<Rightarrow> string" where
  "str_or None d = d"
| "str_or (Some s) d = (if s = [] then d else s)"

section \<open>Feed ingest processor (feed-ingest.processor.ts)\<close>

subsection \<open>Tables\<close>

record series_row =
  series_id :: string
  series_title :: string
  mangadex_id :: "string option"
  last_chapter_released_at :: "timestamp option"
  deleted_at :: "timestamp option"

text \<open>
  A \<^verbatim>\<open>chapterAvailabilityEvent\<close> row. The idempotency key is the first four columns;
  the remaining payload columns the processor fills in (title, volume, language, url,
  raw payload) take no part in any decision and are left out.
\<close>

record event_row =
  ev_series_id :: string
  ev_chapter_number :: string
  ev_source_name :: string
  ev_external_event_id :: string
  ev_discovered_at :: timestamp
  ev_published_at :: "timestamp option"
  ev_process_status :: string

record run_row =
  run_id :: string
  run_source_name :: string
  run_tier :: string
  run_status :: string
  run_completed_at :: "timestamp option"
  run_events_fetched :: nat
  run_events_created :: nat
  run_events_skipped :: nat
  run_series_updated :: nat
  run_error_count :: nat
  run_error_message :: "string option"
  run_rate_limit_hits :: nat
  run_api_calls_made :: nat

text \<open>A \<^verbatim>\<open>mangaUpdatesRelease\<close> row, the locally stored MangaUpdates feed.\<close>

record mu_release =
  mu_series_id :: "string option"
  mu_created_at :: timestamp
  mu_chapter :: "string option"
  mu_release_id :: string
  mu_published_at :: "timestamp option"

text \<open>A chapter of the MangaDex feed: its id, its relationships as (type, id) pairs,
  \<^verbatim>\<open>attributes.chapter\<close> and \<^verbatim>\<open>attributes.publishAt\<close>.\<close>

record md_chapter =
  md_id :: string
  md_relationships :: "(string \<times> string) list"
  md_chapter_attr :: "string option"
  md_publishAt :: "timestamp option"

text \<open>Durable side effects and outbound calls, in the order they happen.\<close>

datatype effect =
    RunCreated string
  | RunUpdated string string
  | AdapterCall nat
  | ReleaseQuery nat

record world =
  series_tbl :: "series_row list"
  event_tbl :: "event_row list"
  release_tbl :: "mu_release list"
  run_tbl :: "run_row list"
  effects :: "effect list"

record counters =
  events_fetched :: nat
  events_created :: nat
  events_skipped :: nat
  series_updated :: nat
  errors :: nat
  rate_limit_hits :: nat

definition zero_counters :: counters where
  "zero_counters = \<lparr> events_fetched = 0, events_created = 0, events_skipped = 0,
     series_updated = 0, errors = 0, rate_limit_hits = 0 \<rparr>"

record feed_result =
  res_source :: string
  res_tier :: string
  res_runId :: string
  res_counters :: counters
  res_duration_ms :: int
  res_paused_due_to_queue_depth :: "bool option"

subsection \<open>The environment of one run\<close>

text \<open>
  What the collaborators outside the processor answer. Every \<^verbatim>\<open>await\<close> that the source
  encloses in a \<^verbatim>\<open>try\<close> block has a fault here (\<open>Some e\<close>: the call rejects with \<open>e\<close>
  and has no effect), so that every \<^verbatim>\<open>catch\<close> branch of the source is a branch of the
  model; the calls outside any \<^verbatim>\<open>try\<close> (the queue-depth query, the creation of the run
  row, the finalising update inside the \<^verbatim>\<open>catch\<close> clause) are taken to return.
  \<open>item_io i\<close> is the environment of the \<open>i\<close>-th fetched item: the clock it reads for
  \<^verbatim>\<open>discoveredAt\<close> and the faults of its series lookup, its event insert and its watermark
  update. \<open>unique_violation\<close> is the error the storage layer raises for a duplicate key,
  \<open>complete_fault\<close> the fault of the finalising update at the end of the \<^verbatim>\<open>try\<close> block.
\<close>

record item_env =
  clock :: timestamp
  find_fault :: "thrown option"
  create_fault :: "thrown option"
  update_fault :: "thrown option"

record env =
  queue_total :: nat
  queue_isOverloaded :: bool
  fresh_run_id :: string
  start_time :: timestamp
  end_time :: timestamp
  query_time :: timestamp
  fetchLatestChapters :: "nat \<Rightarrow> thrown + md_chapter list"
  release_query_fault :: "thrown option"
  item_io :: "nat \<Rightarrow> item_env"
  unique_violation :: thrown
  complete_fault :: "thrown option"

definition BATCH_SIZE :: nat where
  "BATCH_SIZE = 50"

definition MAX_EVENTS_PER_RUN :: nat where
  "MAX_EVENTS_PER_RUN = 100"

subsection \<open>Queue health and the run row\<close>

definition checkQueueHealth :: "env \<Rightarrow> bool \<times> nat" where
  "checkQueueHealth e = (\<not> queue_isOverloaded e, queue_total e)"

text \<open>The run row is created with its source, tier and status; the columns the source
  leaves to the schema start at zero and null.\<close>

definition createIngestRun :: "env \<Rightarrow> string \<Rightarrow> string \<Rightarrow> world \<Rightarrow> string \<times> world" where
  "createIngestRun e source tier w =
     (fresh_run_id e,
      w\<lparr> run_tbl := run_tbl w @
            [\<lparr> run_id = fresh_run_id e, run_source_name = source, run_tier = tier,
               run_status = ''running'', run_completed_at = None,
               run_events_fetched = 0, run_events_created = 0, run_events_skipped = 0,
               run_series_updated = 0, run_error_count = 0, run_error_message = None,
               run_rate_limit_hits = 0, run_api_calls_made = 0 \<rparr>],
          effects := effects w @ [RunCreated (fresh_run_id e)] \<rparr>)"

text \<open>\<^verbatim>\<open>error ? 'failed' : 'completed'\<close> and \<^verbatim>\<open>error || null\<close>: an absent message and
  the empty message are both falsy.\<close>

definition truthy_message :: "string option \<Rightarrow> bool" where
  "truthy_message m = (case m of None \<Rightarrow> False | Some s \<Rightarrow> s \<noteq> [])"

definition completeIngestRun ::
  "timestamp \<Rightarrow> string \<Rightarrow> counters \<Rightarrow> string option \<Rightarrow> world \<Rightarrow> world" where
  "completeIngestRun now runId c error w =
     (let status = (if truthy_message error then ''failed'' else ''completed'') in
      w\<lparr> run_tbl := map (\<lambda>r. if run_id r = runId
              then r\<lparr> run_completed_at := Some now,
                      run_status := status,
                      run_events_fetched := events_fetched c,
                      run_events_created := events_created c,
                      run_events_skipped := events_skipped c,
                      run_series_updated := series_updated c,
                      run_error_count := errors c,
                      run_error_message := (if truthy_message error then error else None),
                      run_rate_limit_hits := rate_limit_hits c,
                      run_api_calls_made := 1 \<rparr>
              else r) (run_tbl w),
          effects := effects w @ [RunUpdated runId status] \<rparr>)"

subsection \<open>Event store and watermark\<close>

definition event_key :: "event_row \<Rightarrow> string \<times> string \<times> string \<times> string" where
  "event_key r = (ev_series_id r, ev_chapter_number r, ev_source_name r, ev_external_event_id r)"

text \<open>
  Modelled from the spec: the table's uniqueness constraint, declared in the Prisma schema
  and not in the processor: \<^verbatim>\<open>UNIQUE(series_id, chapter_number, source_name,
  external_event_id)\<close>. \<^verbatim>\<open>prisma.chapterAvailabilityEvent.create\<close> rejects with the
  injected fault, or with the storage layer's uniqueness violation \<open>uniq\<close> when a row
  with the same key is stored, and inserts the row otherwise.
\<close>

definition create_event ::
  "thrown \<Rightarrow> thrown option \<Rightarrow> event_row \<Rightarrow> event_row list \<Rightarrow> thrown + event_row list" where
  "create_event uniq fault row tbl =
     (case fault of
        Some err \<Rightarrow> Inl err
      | None \<Rightarrow> if event_key row \<in> event_key ` set tbl then Inl uniq else Inr (tbl @ [row]))"

text \<open>\<^verbatim>\<open>!series.last_chapter_released_at || discoveredAt > series.last_chapter_released_at\<close>\<close>

definition shouldUpdate :: "timestamp option \<Rightarrow> timestamp \<Rightarrow> bool" where
  "shouldUpdate lastReleased discoveredAt = (case lastReleased of None \<Rightarrow> True | Some l \<Rightarrow> discoveredAt > l)"

text \<open>\<^verbatim>\<open>COALESCE(last_chapter_released_at, '1970-01-01'::timestamptz)\<close>\<close>

definition coalesce_epoch :: "timestamp option \<Rightarrow> timestamp" where
  "coalesce_epoch lastReleased = (case lastReleased of None \<Rightarrow> 0 | Some l \<Rightarrow> l)"

text \<open>The \<^verbatim>\<open>SET\<close> clause: \<^verbatim>\<open>last_chapter_released_at = GREATEST(COALESCE(...), ts)\<close>.\<close>

definition greatest_update :: "timestamp \<Rightarrow> series_row \<Rightarrow> series_row" where
  "greatest_update ts r =
     r\<lparr> last_chapter_released_at := Some (max (coalesce_epoch (last_chapter_released_at r)) ts) \<rparr>"

text \<open>The whole statement: \<^verbatim>\<open>UPDATE series SET ... WHERE id = sid AND deleted_at IS NULL\<close>,
  on one row and on the table. The database runs it as one atomic step.\<close>

definition update_row :: "string \<Rightarrow> timestamp \<Rightarrow> series_row \<Rightarrow> series_row" where
  "update_row sid ts r =
     (if series_id r = sid \<and> deleted_at r = None then greatest_update ts r else r)"

definition update_watermark :: "string \<Rightarrow> timestamp \<Rightarrow> series_row list \<Rightarrow> series_row list" where
  "update_watermark sid ts tbl = map (update_row sid ts) tbl"

text \<open>The inner \<^verbatim>\<open>catch\<close> of both ingest loops (lines 185-192 and 287-294).\<close>

definition is_unique_constraint_error :: "thrown \<Rightarrow> bool" where
  "is_unique_constraint_error err =
     (case err of ErrorObj code msg \<Rightarrow> str_includes msg ''Unique constraint'' | NonError \<Rightarrow> False)"

definition on_item_error :: "thrown \<Rightarrow> counters \<Rightarrow> counters" where
  "on_item_error err c =
     (if is_unique_constraint_error err
      then c\<lparr> events_skipped := events_skipped c + 1 \<rparr>
      else c\<lparr> errors := errors c + 1 \<rparr>)"

text \<open>
  The body of the inner \<^verbatim>\<open>try\<close>, which the two ingest functions repeat word for word:
  create the event, count it, and advance the watermark when the candidate is newer than
  the snapshot \<open>snap\<close> of the series read earlier.
\<close>

definition record_event ::
  "env \<Rightarrow> item_env \<Rightarrow> series_row \<Rightarrow> event_row \<Rightarrow> world \<times> counters \<Rightarrow> world \<times> counters" where
  "record_event e io snap row st =
     (case st of (w, c) \<Rightarrow>
       (case create_event (unique_violation e) (create_fault io) row (event_tbl w) of
          Inl err \<Rightarrow> (w, on_item_error err c)
        | Inr tbl' \<Rightarrow>
            (let w1 = w\<lparr> event_tbl := tbl' \<rparr>;
                 c1 = c\<lparr> events_created := events_created c + 1 \<rparr>
             in if shouldUpdate (last_chapter_released_at snap) (ev_discovered_at row)
                then (case update_fault io of
                        Some err \<Rightarrow> (w1, on_item_error err c1)
                      | None \<Rightarrow>
                          (w1\<lparr> series_tbl :=
                                 update_watermark (series_id snap) (ev_discovered_at row) (series_tbl w1) \<rparr>,
                           c1\<lparr> series_updated := series_updated c1 + 1 \<rparr>))
                else (w1, c1))))"

subsection \<open>ingestMangaDexChapters\<close>

text \<open>
  One member of a batch. \<open>snapshot\<close> is the series table as the member's
  \<^verbatim>\<open>findUnique\<close> reads it; the insert and the update act on the current world.
\<close>

definition ingest_chapter ::
  "env \<Rightarrow> series_row list \<Rightarrow> nat \<Rightarrow> md_chapter \<Rightarrow> world \<times> counters \<Rightarrow> world \<times> counters" where
  "ingest_chapter e snapshot i chapter st =
     (case st of (w, c) \<Rightarrow>
       (case find (\<lambda>r. fst r = ''manga'') (md_relationships chapter) of
          None \<Rightarrow> (w, c\<lparr> events_skipped := events_skipped c + 1 \<rparr>)
        | Some mangaRel \<Rightarrow>
            (case find_fault (item_io e i) of
               Some err \<Rightarrow> (w, c\<lparr> errors := errors c + 1 \<rparr>)
             | None \<Rightarrow>
                 (case find (\<lambda>s. mangadex_id s = Some (snd mangaRel)) snapshot of
                    None \<Rightarrow> (w, c\<lparr> events_skipped := events_skipped c + 1 \<rparr>)
                  | Some series \<Rightarrow>
                      record_event e (item_io e i) series
                        \<lparr> ev_series_id = series_id series,
                          ev_chapter_number = str_or (md_chapter_attr chapter) ''0'',
                          ev_source_name = ''mangadex'',
                          ev_external_event_id = md_id chapter,
                          ev_discovered_at = clock (item_io e i),
                          ev_published_at = md_publishAt chapter,
                          ev_process_status = ''processed'' \<rparr> (w, c)))))"

fun ingest_members ::
  "env \<Rightarrow> series_row list \<Rightarrow> nat \<Rightarrow> md_chapter list \<Rightarrow> world \<times> counters \<Rightarrow> world \<times> counters" where
  "ingest_members e snapshot i [] st = st"
| "ingest_members e snapshot i (ch # chs) st =
     ingest_members e snapshot (Suc i) chs (ingest_chapter e snapshot i ch st)"

text \<open>
  One batch, \<open>i\<close> being the index of its first member in the fetched list.
  \<^verbatim>\<open>Promise.all(batch.map(async ...))\<close> starts every member before any of them resumes:
  each member runs to its first \<^verbatim>\<open>await\<close>, the series lookup, so all lookups are issued
  before any member's insert or update, and every member reads the series table as it
  was when the batch started. The inserts and updates that follow are run in list
  order; across members they commute, since an insert depends only on the keys stored
  and the update is a \<^verbatim>\<open>GREATEST\<close>.
\<close>

definition ingest_batch ::
  "env \<Rightarrow> nat \<Rightarrow> md_chapter list \<Rightarrow> world \<times> counters \<Rightarrow> world \<times> counters" where
  "ingest_batch e i batch st = ingest_members e (series_tbl (fst st)) i batch st"

text \<open>\<^verbatim>\<open>for (let i = 0; i < data.length; i += BATCH_SIZE) { batch = data.slice(i, i + BATCH_SIZE) ... }\<close>,
  with \<open>rest\<close> the part of the list from index \<open>i\<close> on.\<close>

function ingest_batches ::
  "env \<Rightarrow> nat \<Rightarrow> md_chapter list \<Rightarrow> world \<times> counters \<Rightarrow> world \<times> counters" where
  "ingest_batches e i rest st =
     (if rest = [] then st
      else ingest_batches e (i + BATCH_SIZE) (drop BATCH_SIZE rest)
             (ingest_batch e i (take BATCH_SIZE rest) st))"
  by pat_completeness auto
termination
  by (relation "measure (\<lambda>(e, i, rest, st). length rest)") (auto simp: BATCH_SIZE_def)

declare ingest_batches.simps [simp del]

text \<open>The outer \<^verbatim>\<open>catch\<close> (lines 199-206).\<close>

definition is_rate_limit_error :: "thrown \<Rightarrow> bool" where
  "is_rate_limit_error err =
     (case err of ErrorObj code msg \<Rightarrow> str_includes msg ''429'' | NonError \<Rightarrow> False)"

definition ingestMangaDexChapters ::
  "env \<Rightarrow> string \<Rightarrow> nat \<Rightarrow> world \<Rightarrow> (thrown + counters) \<times> world" where
  "ingestMangaDexChapters e runId limit w =
     (let w0 = w\<lparr> effects := effects w @ [AdapterCall (min limit 100)] \<rparr> in
      case fetchLatestChapters e (min limit 100) of
        Inl err \<Rightarrow>
          if is_rate_limit_error err
          then (Inr (zero_counters\<lparr> rate_limit_hits := 1 \<rparr>), w0)
          else (Inl err, w0)
      | Inr chapters \<Rightarrow>
          (case ingest_batches e 0 chapters
                  (w0, zero_counters\<lparr> events_fetched := length chapters \<rparr>) of
             (w1, c) \<Rightarrow> (Inr c, w1)))"

subsection \<open>ingestMangaUpdatesReleases\<close>

text \<open>
  \<^verbatim>\<open>prisma.mangaUpdatesRelease.findMany\<close>: releases bound to a series and created in the
  last 24 hours, newest first, at most \<open>limit\<close> of them, each with the snapshot of its
  series (\<open>None\<close> when the relation is missing).
\<close>

definition recent_releases ::
  "timestamp \<Rightarrow> nat \<Rightarrow> world \<Rightarrow> (mu_release \<times> series_row option) list" where
  "recent_releases now limit w =
     map (\<lambda>r. (r, find (\<lambda>s. Some (series_id s) = mu_series_id r) (series_tbl w)))
       (take limit
         (sort_key (\<lambda>r. - mu_created_at r)
           (filter (\<lambda>r. mu_series_id r \<noteq> None \<and> mu_created_at r \<ge> now - 24 * 60 * 60 * 1000)
             (release_tbl w))))"

definition ingest_release ::
  "env \<Rightarrow> nat \<Rightarrow> mu_release \<times> series_row option \<Rightarrow> world \<times> counters \<Rightarrow> world \<times> counters" where
  "ingest_release e i release st =
     (case st of (w, c) \<Rightarrow>
       (case snd release of
          None \<Rightarrow> (w, c\<lparr> events_skipped := events_skipped c + 1 \<rparr>)
        | Some series \<Rightarrow>
            record_event e (item_io e i) series
              \<lparr> ev_series_id = series_id series,
                ev_chapter_number = str_or (mu_chapter (fst release)) ''0'',
                ev_source_name = ''mangaupdates'',
                ev_external_event_id = mu_release_id (fst release),
                ev_discovered_at = mu_created_at (fst release),
                ev_published_at = mu_published_at (fst release),
                ev_process_status = ''processed'' \<rparr> (w, c)))"

fun ingest_releases ::
  "env \<Rightarrow> nat \<Rightarrow> (mu_release \<times> series_row option) list \<Rightarrow> world \<times> counters \<Rightarrow> world \<times> counters" where
  "ingest_releases e i [] st = st"
| "ingest_releases e i (r # rs) st = ingest_releases e (Suc i) rs (ingest_release e i r st)"

definition ingestMangaUpdatesReleases ::
  "env \<Rightarrow> string \<Rightarrow> nat \<Rightarrow> world \<Rightarrow> counters \<times> world" where
  "ingestMangaUpdatesReleases e runId limit w =
     (let w0 = w\<lparr> effects := effects w @ [ReleaseQuery limit] \<rparr> in
      case release_query_fault e of
        Some err \<Rightarrow> (zero_counters\<lparr> errors := 1 \<rparr>, w0)
      | None \<Rightarrow>
          (let recentReleases = recent_releases (query_time e) limit w0 in
           case ingest_releases e 0 recentReleases
                  (w0, zero_counters\<lparr> events_fetched := length recentReleases \<rparr>) of
             (w1, c) \<Rightarrow> (c, w1)))"

subsection \<open>processFeedIngest\<close>

record job =
  job_source :: string
  job_tier :: string
  job_limit :: "nat option"

text \<open>\<^verbatim>\<open>error instanceof Error ? error.message : 'Unknown error'\<close>\<close>

definition errorMessage :: "thrown \<Rightarrow> string" where
  "errorMessage err = (case err of ErrorObj code msg \<Rightarrow> msg | NonError \<Rightarrow> ''Unknown error'')"

text \<open>The \<^verbatim>\<open>switch\<close> over the source.\<close>

definition run_source ::
  "env \<Rightarrow> string \<Rightarrow> string \<Rightarrow> nat \<Rightarrow> world \<Rightarrow> (thrown + counters) \<times> world" where
  "run_source e source runId limit w =
     (if source = ''mangadex'' then ingestMangaDexChapters e runId limit w
      else if source = ''mangaupdates'' then
        (case ingestMangaUpdatesReleases e runId limit w of (c, w1) \<Rightarrow> (Inr c, w1))
      else (Inl (ErrorObj ''Error'' (''Unknown feed source: '' @ source)), w))"

text \<open>The \<^verbatim>\<open>catch\<close> clause of \<^verbatim>\<open>processFeedIngest\<close> (lines 362-366).\<close>

definition fail_run :: "env \<Rightarrow> string \<Rightarrow> thrown \<Rightarrow> world \<Rightarrow> (thrown + feed_result) \<times> world" where
  "fail_run e runId err w =
     (Inl err,
      completeIngestRun (end_time e) runId (zero_counters\<lparr> errors := 1 \<rparr>)
        (Some (errorMessage err)) w)"

definition processFeedIngest :: "env \<Rightarrow> job \<Rightarrow> world \<Rightarrow> (thrown + feed_result) \<times> world" where
  "processFeedIngest e j w =
     (let source = job_source j; tier = job_tier j;
          limit = (case job_limit j of None \<Rightarrow> MAX_EVENTS_PER_RUN | Some l \<Rightarrow> l)
      in case checkQueueHealth e of (healthy, depth) \<Rightarrow>
        if \<not> healthy
        then (Inr \<lparr> res_source = source, res_tier = tier, res_runId = [],
                    res_counters = zero_counters,
                    res_duration_ms = end_time e - start_time e,
                    res_paused_due_to_queue_depth = Some True \<rparr>, w)
        else (case createIngestRun e source tier w of (runId, w1) \<Rightarrow>
          (case run_source e source runId limit w1 of
             (Inl err, w2) \<Rightarrow> fail_run e runId err w2
           | (Inr c, w2) \<Rightarrow>
               (case complete_fault e of
                  Some err \<Rightarrow> fail_run e runId err w2
                | None \<Rightarrow>
                    (Inr \<lparr> res_source = source, res_tier = tier, res_runId = runId,
                           res_counters = c,
                           res_duration_ms = end_time e - start_time e,
                           res_paused_due_to_queue_depth = None \<rparr>,
                     completeIngestRun (end_time e) runId c None w2)))))"

subsection \<open>Reading the outcome of a run\<close>

definition is_run_update :: "effect \<Rightarrow> bool" where
  "is_run_update x = (case x of RunUpdated rid status \<Rightarrow> True | _ \<Rightarrow> False)"

text \<open>The status the finalising update writes, as a function of what the run returns.\<close>

definition final_status :: "thrown + feed_result \<Rightarrow> string" where
  "final_status res =
     (case res of
        Inl err \<Rightarrow> if errorMessage err = [] then ''completed'' else ''failed''
      | Inr r \<Rightarrow> ''completed'')"

subsection \<open>Reading the event table\<close>

definition rows_with_key :: "string \<times> string \<times> string \<times> string \<Rightarrow> event_row list \<Rightarrow> event_row list" where
  "rows_with_key k tbl = filter (\<lambda>r. event_key r = k) tbl"

text \<open>The uniqueness constraint as a property of a table, and the rows stored under a key.\<close>

definition unique_keys :: "event_row list \<Rightarrow> bool" where
  "unique_keys tbl = distinct (map event_key tbl)"


section \<open>Concurrent advances of one watermark\<close>

text \<open>
  The watermark path of the two ingest loops (lines 170-184 and 272-285), run by several
  callers at once on one series row. A caller \<open>i\<close> first reads the row (the
  \<^verbatim>\<open>findUnique\<close> or \<^verbatim>\<open>findMany\<close> that yields its snapshot), and later, with its candidate
  timestamp \<open>ts i\<close>, tests \<^verbatim>\<open>shouldUpdate\<close> against that snapshot and issues the
  \<^verbatim>\<open>UPDATE\<close> statement. The database runs each statement atomically, so an interleaving
  of the callers is a list of such steps, in any order that keeps each caller's read
  before its own update.
\<close>

datatype sched_step = Snapshot nat | Advance nat

record reconciler =
  rc_row :: series_row
  rc_snaps :: "(nat \<times> timestamp option) list"

definition watermark :: "reconciler \<Rightarrow> timestamp option" where
  "watermark st = last_chapter_released_at (rc_row st)"

definition reconciler_step :: "(nat \<Rightarrow> timestamp) \<Rightarrow> sched_step \<Rightarrow> reconciler \<Rightarrow> reconciler" where
  "reconciler_step ts s st =
     (case s of
        Snapshot i \<Rightarrow> st\<lparr> rc_snaps := (i, last_chapter_released_at (rc_row st)) # rc_snaps st \<rparr>
      | Advance i \<Rightarrow>
          (case map_of (rc_snaps st) i of
             None \<Rightarrow> st
           | Some snap \<Rightarrow>
               if shouldUpdate snap (ts i)
               then st\<lparr> rc_row := update_row (series_id (rc_row st)) (ts i) (rc_row st) \<rparr>
               else st))"

fun run_schedule :: "(nat \<Rightarrow> timestamp) \<Rightarrow> sched_step list \<Rightarrow> reconciler \<Rightarrow> reconciler" where
  "run_schedule ts [] st = st"
| "run_schedule ts (s # ss) st = run_schedule ts ss (reconciler_step ts s st)"

text \<open>Every update of a caller comes after a read of the same caller; \<open>seen\<close> are the
  callers that have read so far.\<close>

fun in_program_order :: "nat list \<Rightarrow> sched_step list \<Rightarrow> bool" where
  "in_program_order seen [] = True"
| "in_program_order seen (Snapshot i # ss) = in_program_order (i # seen) ss"
| "in_program_order seen (Advance i # ss) = (i \<in> set seen \<and> in_program_order seen ss)"

text \<open>The callers whose advance ran, in the order of the interleaving.\<close>

fun advanced :: "sched_step list \<Rightarrow> nat list" where
  "advanced [] = []"
| "advanced (Snapshot i # ss) = advanced ss"
| "advanced (Advance i # ss) = i # advanced ss"

text \<open>The order of watermarks: a missing one is below every timestamp.\<close>

fun wm_le :: "timestamp option \<Rightarrow> timestamp option \<Rightarrow> bool" where
  "wm_le None b = True"
| "wm_le (Some a) None = False"
| "wm_le (Some a) (Some b) = (a \<le> b)"

definition start :: "series_row \<Rightarrow> reconciler" where
  "start r = \<lparr> rc_row = r, rc_snaps = [] \<rparr>"

text \<open>No snapshot is ahead of the row.\<close>

definition snaps_behind :: "reconciler \<Rightarrow> bool" where
  "snaps_behind st = (\<forall>p \<in> set (rc_snaps st). wm_le (snd p) (watermark st))"


section \<open>On-demand sync of the chapter route (performOnDemandSync)\<close>

subsection \<open>Tables and the lock table\<close>

record series_source =
  ss_series_id :: string
  ss_source_name :: string
  ss_source_id :: string
  ss_source_url :: string
  ss_source_title :: string
  ss_sync_priority :: string

record chapter_row =
  ch_id :: string
  ch_series_id :: string
  ch_title :: "string option"
  ch_deleted_at :: "timestamp option"

record chapter_source_row =
  cs_id :: string
  cs_chapter_id :: string

text \<open>\<open>sd_locks\<close> are the advisory-lock keys some database session holds.\<close>

record sync_db =
  sd_series :: "series_row list"
  sd_sources :: "series_source list"
  sd_chapters :: "chapter_row list"
  sd_chapter_sources :: "chapter_source_row list"
  sd_locks :: "int list"

datatype sync_effect =
    LockQuery int
  | UnlockQuery int
  | Scrape string string
  | SyncChaptersCall string string string nat
  | ConsoleLog string
  | ConsoleError string "thrown option"

record sync_state =
  st_db :: sync_db
  st_trace :: "sync_effect list"

definition emit :: "sync_effect \<Rightarrow> sync_state \<Rightarrow> sync_state" where
  "emit x st = st\<lparr> st_trace := st_trace st @ [x] \<rparr>"

text \<open>
  The collaborators of one call: a fault for each database query, the scraper registry
  \<^verbatim>\<open>scrapers\<close> (a scraper returns the chapter list of \<^verbatim>\<open>scraped.chapters\<close> or rejects)
  and \<^verbatim>\<open>syncChapters\<close> of \<^verbatim>\<open>lib/series-sync\<close>, an arbitrary update of the database that
  may reject. \<open>'c\<close> is the type of a scraped chapter, which the route never inspects.
\<close>

record 'c sync_env =
  lock_fault :: "thrown option"
  counts_fault :: "thrown option"
  series_fault :: "thrown option"
  upsert_fault :: "thrown option"
  titles_fault :: "thrown option"
  unlock_fault :: "thrown option"
  scrapers :: "string \<Rightarrow> (string \<Rightarrow> thrown + 'c list) option"
  syncChapters :: "string \<Rightarrow> string \<Rightarrow> string \<Rightarrow> 'c list \<Rightarrow> sync_db \<Rightarrow> thrown + sync_db"

subsection \<open>The lock key\<close>

text \<open>
  \<^verbatim>\<open>parseInt(seriesId.replace(/-/g, '').substring(0, 8), 16)\<close>. \<^verbatim>\<open>parseInt\<close> skips leading
  white space, reads a sign and an optional \<^verbatim>\<open>0x\<close>, then the longest run of hexadecimal
  digits, and is \<^verbatim>\<open>NaN\<close> (\<open>None\<close>) when there is no digit. Series ids are ASCII: the route
  admits only ids of UUID shape.
\<close>

definition hex_digit :: "char \<Rightarrow> nat option" where
  "hex_digit c =
     (let n = (of_char c :: nat) in
      if 48 \<le> n \<and> n \<le> 57 then Some (n - 48)
      else if 97 \<le> n \<and> n \<le> 102 then Some (n - 87)
      else if 65 \<le> n \<and> n \<le> 70 then Some (n - 55)
      else None)"

fun hex_value :: "nat \<Rightarrow> string \<Rightarrow> nat" where
  "hex_value acc [] = acc"
| "hex_value acc (c # cs) =
     (case hex_digit c of None \<Rightarrow> acc | Some d \<Rightarrow> hex_value (16 * acc + d) cs)"

definition is_js_space :: "char \<Rightarrow> bool" where
  "is_js_space c = ((of_char c :: nat) \<in> {9, 10, 11, 12, 13, 32})"

definition parseInt16 :: "string \<Rightarrow> int option" where
  "parseInt16 s =
     (let s1 = dropWhile is_js_space s;
          neg = startsWith s1 ''-'';
          s2 = (if startsWith s1 ''-'' \<or> startsWith s1 ''+'' then drop 1 s1 else s1);
          s3 = (if startsWith s2 ''0x'' \<or> startsWith s2 ''0X'' then drop 2 s2 else s2)
      in case s3 of
           [] \<Rightarrow> None
         | c # cs \<Rightarrow>
             (case hex_digit c of
                None \<Rightarrow> None
              | Some d \<Rightarrow> Some ((if neg then - 1 else 1) * int (hex_value 0 s3))))"

definition lock_id :: "string \<Rightarrow> int option" where
  "lock_id seriesId = parseInt16 (take 8 (filter (\<lambda>c. c \<noteq> CHR ''-'') seriesId))"

subsection \<open>Advisory locks\<close>

text \<open>
  Modelled from the spec: the storage layer's session-scoped advisory lock, taken without
  blocking. \<^verbatim>\<open>pg_try_advisory_lock\<close> answers one row: \<open>False\<close> when another session holds
  the key, \<open>True\<close> when the key was free and is now held by the caller. Every call of
  the route is a session of its own.
\<close>

definition pg_try_advisory_lock :: "int \<Rightarrow> sync_db \<Rightarrow> bool list \<times> sync_db" where
  "pg_try_advisory_lock k db =
     (if k \<in> set (sd_locks db) then ([False], db)
      else ([True], db\<lparr> sd_locks := k # sd_locks db \<rparr>))"

definition pg_advisory_unlock :: "int \<Rightarrow> sync_db \<Rightarrow> sync_db" where
  "pg_advisory_unlock k db = db\<lparr> sd_locks := removeAll k (sd_locks db) \<rparr>"

text \<open>\<^verbatim>\<open>!lockAcquired || lockAcquired.length === 0 || !lockAcquired[0]?.pg_try_advisory_lock\<close>\<close>

definition lock_refused :: "bool list \<Rightarrow> bool" where
  "lock_refused rows = (case rows of [] \<Rightarrow> True | b # bs \<Rightarrow> \<not> b)"

subsection \<open>The re-check under the lock\<close>

definition chapter_count :: "string \<Rightarrow> sync_db \<Rightarrow> nat" where
  "chapter_count sid db =
     length (filter (\<lambda>c. ch_series_id c = sid \<and> ch_deleted_at c = None) (sd_chapters db))"

definition chapter_source_count :: "string \<Rightarrow> sync_db \<Rightarrow> nat" where
  "chapter_source_count sid db =
     length (filter
       (\<lambda>s. list_ex (\<lambda>c. ch_id c = cs_chapter_id s \<and> ch_series_id c = sid \<and> ch_deleted_at c = None)
               (sd_chapters db))
       (sd_chapter_sources db))"

definition dummyTitles :: "string list" where
  "dummyTitles = [''The Beginning'', ''The Journey'', ''New Discovery'']"

text \<open>The titles query has no \<^verbatim>\<open>deleted_at\<close> filter: it reads every chapter of the series.\<close>

definition titles_all_dummy :: "string \<Rightarrow> sync_db \<Rightarrow> bool" where
  "titles_all_dummy sid db =
     list_all (\<lambda>c. str_or (ch_title c) [] \<in> set dummyTitles)
       (filter (\<lambda>c. ch_series_id c = sid) (sd_chapters db))"

definition is_dummy :: "string \<Rightarrow> sync_db \<Rightarrow> bool" where
  "is_dummy sid db = (chapter_count sid db = 3 \<and> titles_all_dummy sid db)"

definition hasOrphanedChapters :: "string \<Rightarrow> sync_db \<Rightarrow> bool" where
  "hasOrphanedChapters sid db = (chapter_count sid db > 0 \<and> chapter_source_count sid db = 0)"

text \<open>\<^verbatim>\<open>series.sources.find(s => s.source_name === 'mangadex') || series.sources[0]\<close>\<close>

definition pick_source :: "series_source list \<Rightarrow> series_source option" where
  "pick_source sources =
     (case find (\<lambda>s. ss_source_name s = ''mangadex'') sources of
        Some s \<Rightarrow> Some s
      | None \<Rightarrow> (case sources of [] \<Rightarrow> None | s # rest \<Rightarrow> Some s))"

text \<open>\<^verbatim>\<open>prisma.seriesSource.upsert\<close> on the unique pair (source name, source id).\<close>

definition upsert_mangadex_source ::
  "string \<Rightarrow> series_row \<Rightarrow> string \<Rightarrow> sync_db \<Rightarrow> series_source \<times> sync_db" where
  "upsert_mangadex_source sid series mdid db =
     (case find (\<lambda>s. ss_source_name s = ''mangadex'' \<and> ss_source_id s = mdid) (sd_sources db) of
        Some old \<Rightarrow>
          (old\<lparr> ss_series_id := sid \<rparr>,
           db\<lparr> sd_sources :=
                 map (\<lambda>s. if ss_source_name s = ''mangadex'' \<and> ss_source_id s = mdid
                           then s\<lparr> ss_series_id := sid \<rparr> else s) (sd_sources db) \<rparr>)
      | None \<Rightarrow>
          (let created = \<lparr> ss_series_id = sid, ss_source_name = ''mangadex'', ss_source_id = mdid,
                            ss_source_url = ''https://mangadex.org/title/'' @ mdid,
                            ss_source_title = series_title series,
                            ss_sync_priority = ''COLD'' \<rparr>
           in (created, db\<lparr> sd_sources := sd_sources db @ [created] \<rparr>)))"

text \<open>Lines 411-433: the source to sync from, created on the fly from the series'
  MangaDex id when the series has none.\<close>

definition resolve_source ::
  "'c sync_env \<Rightarrow> string \<Rightarrow> series_row \<Rightarrow> sync_state \<Rightarrow> (thrown + series_source option) \<times> sync_state" where
  "resolve_source e sid series st =
     (case pick_source (filter (\<lambda>s. ss_series_id s = sid) (sd_sources (st_db st))) of
        Some s \<Rightarrow> (Inr (Some s), st)
      | None \<Rightarrow>
          (case mangadex_id series of
             None \<Rightarrow> (Inr None, st)
           | Some mdid \<Rightarrow>
               if mdid = [] then (Inr None, st)
               else (case upsert_fault e of
                       Some err \<Rightarrow> (Inl err, st)
                     | None \<Rightarrow>
                         (case upsert_mangadex_source sid series mdid (st_db st) of
                            (s, db1) \<Rightarrow> (Inr (Some s), st\<lparr> st_db := db1 \<rparr>)))))"

text \<open>Lines 451-457: the adapter fetch and the hand-over to \<^verbatim>\<open>syncChapters\<close>.\<close>

definition fetch_and_sync ::
  "'c sync_env \<Rightarrow> string \<Rightarrow> series_source \<Rightarrow> sync_state \<Rightarrow> (thrown + unit) \<times> sync_state" where
  "fetch_and_sync e sid syncSource st =
     (case scrapers e (ss_source_name syncSource) of
        None \<Rightarrow> (Inr (), st)
      | Some scrapeSeries \<Rightarrow>
          (let st1 = emit (Scrape (ss_source_name syncSource) (ss_source_id syncSource)) st in
           case scrapeSeries (ss_source_id syncSource) of
             Inl err \<Rightarrow> (Inl err, st1)
           | Inr chapters \<Rightarrow>
               if length chapters > 0
               then (let st2 = emit (SyncChaptersCall sid (ss_source_id syncSource)
                                       (ss_source_name syncSource) (length chapters)) st1 in
                     case syncChapters e sid (ss_source_id syncSource)
                            (ss_source_name syncSource) chapters (st_db st2) of
                       Inl err \<Rightarrow> (Inl err, st2)
                     | Inr db2 \<Rightarrow> (Inr (), st2\<lparr> st_db := db2 \<rparr>))
               else (Inr (), st1)))"

text \<open>The body of the inner \<^verbatim>\<open>try\<close> (lines 387-457).\<close>

definition sync_body :: "'c sync_env \<Rightarrow> string \<Rightarrow> sync_state \<Rightarrow> (thrown + unit) \<times> sync_state" where
  "sync_body e sid st =
     (case counts_fault e of
        Some err \<Rightarrow> (Inl err, st)
      | None \<Rightarrow>
          (let currentCount = chapter_count sid (st_db st);
               sourceCount = chapter_source_count sid (st_db st)
           in case series_fault e of
                Some err \<Rightarrow> (Inl err, st)
              | None \<Rightarrow>
                  (case find (\<lambda>s. series_id s = sid) (sd_series (st_db st)) of
                     None \<Rightarrow> (Inr (), st)
                   | Some series \<Rightarrow>
                       (case resolve_source e sid series st of
                          (Inl err, st1) \<Rightarrow> (Inl err, st1)
                        | (Inr None, st1) \<Rightarrow> (Inr (), st1)
                        | (Inr (Some syncSource), st1) \<Rightarrow>
                            (case (if currentCount = 3 then titles_fault e else None) of
                               Some err \<Rightarrow> (Inl err, st1)
                             | None \<Rightarrow>
                                 (let isDummy = (currentCount = 3 \<and> titles_all_dummy sid (st_db st1));
                                      orphaned = (currentCount > 0 \<and> sourceCount = 0)
                                  in if currentCount > 0 \<and> \<not> isDummy \<and> \<not> orphaned
                                     then (Inr (), st1)
                                     else fetch_and_sync e sid syncSource st1))))))"

text \<open>The \<^verbatim>\<open>finally\<close> block: the unlock query, whose rejection is logged by its own
  \<^verbatim>\<open>.catch\<close>.\<close>

definition release_lock :: "'c sync_env \<Rightarrow> string \<Rightarrow> int \<Rightarrow> sync_state \<Rightarrow> sync_state" where
  "release_lock e sid k st =
     (let st1 = emit (UnlockQuery k) st in
      case unlock_fault e of
        Some err \<Rightarrow> emit (ConsoleError (''[Sync] Failed to release lock for '' @ sid @ '':'') (Some err)) st1
      | None \<Rightarrow> st1\<lparr> st_db := pg_advisory_unlock k (st_db st1) \<rparr>)"

text \<open>The inner \<^verbatim>\<open>try ... finally\<close>, entered with the lock held.\<close>

definition locked_section ::
  "'c sync_env \<Rightarrow> string \<Rightarrow> int \<Rightarrow> sync_state \<Rightarrow> (thrown + unit) \<times> sync_state" where
  "locked_section e sid k st =
     (case sync_body e sid st of (r, st1) \<Rightarrow> (r, release_lock e sid k st1))"

text \<open>The lock query and the test of its answer (lines 379-384).\<close>

definition acquire ::
  "'c sync_env \<Rightarrow> int \<Rightarrow> sync_state \<Rightarrow> (thrown + bool) \<times> sync_state" where
  "acquire e k st =
     (let st1 = emit (LockQuery k) st in
      case lock_fault e of
        Some err \<Rightarrow> (Inl err, st1)
      | None \<Rightarrow>
          (case pg_try_advisory_lock k (st_db st1) of
             (rows, db1) \<Rightarrow> (Inr (\<not> lock_refused rows), st1\<lparr> st_db := db1 \<rparr>)))"

text \<open>The body of the outer \<^verbatim>\<open>try\<close>.\<close>

definition sync_attempt ::
  "'c sync_env \<Rightarrow> string \<Rightarrow> int \<Rightarrow> sync_state \<Rightarrow> (thrown + unit) \<times> sync_state" where
  "sync_attempt e sid k st =
     (case acquire e k st of
        (Inl err, st1) \<Rightarrow> (Inl err, st1)
      | (Inr False, st1) \<Rightarrow>
          (Inr (), emit (ConsoleLog (''[Sync] Series '' @ sid @
                           '' is already being synced or lock failed, skipping.'')) st1)
      | (Inr True, st1) \<Rightarrow> locked_section e sid k st1)"

text \<open>The whole function. The first component is what it throws to its caller.\<close>

definition performOnDemandSync ::
  "'c sync_env \<Rightarrow> string \<Rightarrow> sync_state \<Rightarrow> thrown option \<times> sync_state" where
  "performOnDemandSync e sid st =
     (case lock_id sid of
        None \<Rightarrow> (None, emit (ConsoleError (''[Sync] Invalid lock ID for series '' @ sid) None) st)
      | Some k \<Rightarrow>
          (case sync_attempt e sid k st of
             (Inl err, st1) \<Rightarrow>
               (None, emit (ConsoleError (''[Sync] On-demand sync failed for '' @ sid @ '':'') (Some err)) st1)
           | (Inr u, st1) \<Rightarrow> (None, st1)))"

subsection \<open>Reading a trace\<close>

definition is_scrape :: "sync_effect \<Rightarrow> bool" where
  "is_scrape x = (case x of Scrape name sid \<Rightarrow> True | _ \<Rightarrow> False)"

definition scrapes :: "sync_state \<Rightarrow> nat" where
  "scrapes st = length (filter is_scrape (st_trace st))"

text \<open>The test of line 447, on the database the call started from.\<close>

definition already_synced :: "string \<Rightarrow> sync_db \<Rightarrow> bool" where
  "already_synced sid db =
     (chapter_count sid db > 0 \<and> \<not> is_dummy sid db \<and> \<not> hasOrphanedChapters sid db)"


section \<open>DLQ alerting (monitoring.ts)\<close>

datatype alert_type = Dlq_threshold | Dlq_critical | Metadata_failure | Source_failure | System_error

datatype severity = Warning | Error | Critical

fun type_name :: "alert_type \<Rightarrow> string" where
  "type_name Dlq_threshold = ''dlq_threshold''"
| "type_name Dlq_critical = ''dlq_critical''"
| "type_name Metadata_failure = ''metadata_failure''"
| "type_name Source_failure = ''source_failure''"
| "type_name System_error = ''system_error''"

record dlq_alert =
  alert_type :: alert_type
  alert_entityId :: "string option"
  alert_failureCount :: int
  alert_message :: string
  alert_timestamp :: timestamp
  alert_severity :: severity

text \<open>What the service emits: the \<^verbatim>\<open>[DLQ_ALERT]\<close> console line of a dispatched alert, the
  call of the handler at an index, the logged error of a handler that threw, and the
  message handed to the error monitor with its level.\<close>

datatype alert_output =
    AlertLogged dlq_alert
  | HandlerInvoked nat dlq_alert
  | HandlerError thrown
  | MessageCaptured string string

text \<open>A handler either returns (\<open>None\<close>) or throws.\<close>

type_synonym alert_handler = "dlq_alert \<Rightarrow> thrown option"

record alerting =
  handlers :: "alert_handler list"
  lastAlertTime :: "string \<rightharpoonup> int"
  emitted :: "alert_output list"

definition alertCooldownMs :: int where
  "alertCooldownMs = 5 * 60 * 1000"

text \<open>\<^verbatim>\<open>`${alert.type}:${alert.entityId || 'global'}`\<close>\<close>

definition alertKey :: "dlq_alert \<Rightarrow> string" where
  "alertKey a = type_name (alert_type a) @ '':'' @ str_or (alert_entityId a) ''global''"

text \<open>\<^verbatim>\<open>lastAlert && now - lastAlert < this.alertCooldownMs\<close>: a missing entry and the
  number 0 are falsy.\<close>

definition in_cooldown :: "int \<Rightarrow> int option \<Rightarrow> bool" where
  "in_cooldown now lastAlert =
     (case lastAlert of None \<Rightarrow> False | Some t \<Rightarrow> t \<noteq> 0 \<and> now - t < alertCooldownMs)"

text \<open>The loop over the handlers, \<open>i\<close> the index of the first of \<open>hs\<close>.\<close>

fun run_handlers :: "nat \<Rightarrow> alert_handler list \<Rightarrow> dlq_alert \<Rightarrow> alert_output list" where
  "run_handlers i [] a = []"
| "run_handlers i (h # hs) a =
     (case h a of
        None \<Rightarrow> HandlerInvoked i a # run_handlers (Suc i) hs a
      | Some err \<Rightarrow> HandlerInvoked i a # HandlerError err # run_handlers (Suc i) hs a)"

definition sendAlert :: "int \<Rightarrow> dlq_alert \<Rightarrow> alerting \<Rightarrow> alerting" where
  "sendAlert now a st =
     (if in_cooldown now (lastAlertTime st (alertKey a)) then st
      else st\<lparr> lastAlertTime := (lastAlertTime st)(alertKey a \<mapsto> now),
               emitted := emitted st @ [AlertLogged a] @ run_handlers 0 (handlers st) a @
                 [MessageCaptured (alert_message a)
                    (if alert_severity a = Critical then ''error'' else ''warn'')] \<rparr>)"

record thresholds =
  th_warning :: int
  th_error :: int
  th_critical :: int

definition default_thresholds :: thresholds where
  "default_thresholds = \<lparr> th_warning = 50, th_error = 200, th_critical = 500 \<rparr>"

text \<open>Decimal rendering of a count inside the message template.\<close>

fun show_nat :: "nat \<Rightarrow> string" where
  "show_nat n =
     (if n < 10 then [char_of (48 + n)]
      else show_nat (n div 10) @ [char_of (48 + n mod 10)])"

declare show_nat.simps [simp del]

definition show_int :: "int \<Rightarrow> string" where
  "show_int i = (if i < 0 then ''-'' @ show_nat (nat (- i)) else show_nat (nat i))"

definition dlq_message :: "string \<Rightarrow> int \<Rightarrow> int \<Rightarrow> string" where
  "dlq_message label dlqCount limit =
     label @ '': DLQ has '' @ show_int dlqCount @ '' unresolved failures (threshold: '' @
       show_int limit @ '')''"

text \<open>\<open>stamp\<close> is the \<^verbatim>\<open>new Date()\<close> of the alert, \<open>now\<close> the \<^verbatim>\<open>Date.now()\<close> that
  \<^verbatim>\<open>sendAlert\<close> reads.\<close>

definition checkDLQThresholds ::
  "timestamp \<Rightarrow> int \<Rightarrow> int \<Rightarrow> thresholds \<Rightarrow> alerting \<Rightarrow> alerting" where
  "checkDLQThresholds stamp now dlqCount th st =
     (if dlqCount \<ge> th_critical th then
        sendAlert now \<lparr> alert_type = Dlq_critical, alert_entityId = None,
          alert_failureCount = dlqCount,
          alert_message = dlq_message ''CRITICAL'' dlqCount (th_critical th),
          alert_timestamp = stamp, alert_severity = Critical \<rparr> st
      else if dlqCount \<ge> th_error th then
        sendAlert now \<lparr> alert_type = Dlq_threshold, alert_entityId = None,
          alert_failureCount = dlqCount,
          alert_message = dlq_message ''ERROR'' dlqCount (th_error th),
          alert_timestamp = stamp, alert_severity = Error \<rparr> st
      else if dlqCount \<ge> th_warning th then
        sendAlert now \<lparr> alert_type = Dlq_threshold, alert_entityId = None,
          alert_failureCount = dlqCount,
          alert_message = dlq_message ''WARNING'' dlqCount (th_warning th),
          alert_timestamp = stamp, alert_severity = Warning \<rparr> st
      else st)"

text \<open>The alert the first branch of \<^verbatim>\<open>checkDLQThresholds\<close> builds.\<close>

definition critical_alert :: "timestamp \<Rightarrow> int \<Rightarrow> thresholds \<Rightarrow> dlq_alert" where
  "critical_alert stamp dlqCount th =
     \<lparr> alert_type = Dlq_critical, alert_entityId = None,
       alert_failureCount = dlqCount,
       alert_message = dlq_message ''CRITICAL'' dlqCount (th_critical th),
       alert_timestamp = stamp, alert_severity = Critical \<rparr>"

text \<open>The alerts that were dispatched, oldest first.\<close>

definition dispatched :: "alerting \<Rightarrow> dlq_alert list" where
  "dispatched st = concat (map (\<lambda>x. case x of AlertLogged a \<Rightarrow> [a] | _ \<Rightarrow> []) (emitted st))"

definition new_service :: alerting where
  "new_service = \<lparr> handlers = [], lastAlertTime = Map.empty, emitted = [] \<rparr>"

section \<open>The middleware's rate-limit store (BoundedRateLimitStore)\<close>

record rl_entry =
  rl_count :: int
  rl_resetTime :: int

text \<open>
  The \<^verbatim>\<open>Map\<close> as the list of its entries in insertion order, which is the order a
  \<^verbatim>\<open>for ... of\<close> loop visits them in; a key occurs once.
\<close>

record rl_store =
  store :: "(string \<times> rl_entry) list"
  maxEntries :: nat
  lastCleanup :: int

definition cleanupInterval :: int where
  "cleanupInterval = 60000"

text \<open>\<^verbatim>\<open>new BoundedRateLimitStore(maxEntries)\<close> at clock reading \<open>now\<close>.\<close>

definition new_store :: "nat \<Rightarrow> int \<Rightarrow> rl_store" where
  "new_store n now = \<lparr> store = [], maxEntries = n, lastCleanup = now \<rparr>"

definition store_delete :: "string \<Rightarrow> (string \<times> rl_entry) list \<Rightarrow> (string \<times> rl_entry) list" where
  "store_delete key es = filter (\<lambda>p. fst p \<noteq> key) es"

text \<open>\<^verbatim>\<open>Map.prototype.set\<close>: a stored key keeps its place and takes the new value, a new
  key goes to the end.\<close>

definition store_set ::
  "string \<Rightarrow> rl_entry \<Rightarrow> (string \<times> rl_entry) list \<Rightarrow> (string \<times> rl_entry) list" where
  "store_set key v es =
     (if key \<in> fst ` set es then map (\<lambda>p. if fst p = key then (key, v) else p) es
      else es @ [(key, v)])"

text \<open>\<^verbatim>\<open>cleanup()\<close>, with \<open>now\<close> its \<^verbatim>\<open>Date.now()\<close>.\<close>

definition cleanup :: "int \<Rightarrow> rl_store \<Rightarrow> rl_store" where
  "cleanup now s =
     (if now - lastCleanup s < cleanupInterval then s
      else
        (let live = filter (\<lambda>p. \<not> now > rl_resetTime (snd p)) (store s);
             kept =
               (if length live > maxEntries s
                then (let entries = sort_key (\<lambda>p. rl_resetTime (snd p)) live;
                          toDelete = take (length entries - maxEntries s) entries
                      in filter (\<lambda>p. fst p \<notin> fst ` set toDelete) live)
                else live)
         in s\<lparr> store := kept, lastCleanup := now \<rparr>))"

text \<open>
  The scan for the oldest entry in \<^verbatim>\<open>set\<close>: the pair is \<^verbatim>\<open>(oldestKey, oldestTime)\<close>, with
  \<open>None\<close> for \<^verbatim>\<open>null\<close> and for \<^verbatim>\<open>Infinity\<close>.
\<close>

fun oldest_scan ::
  "string option \<times> int option \<Rightarrow> (string \<times> rl_entry) list \<Rightarrow> string option \<times> int option" where
  "oldest_scan acc [] = acc"
| "oldest_scan acc (p # ps) =
     (if (case snd acc of None \<Rightarrow> True | Some t \<Rightarrow> rl_resetTime (snd p) < t)
      then oldest_scan (Some (fst p), Some (rl_resetTime (snd p))) ps
      else oldest_scan acc ps)"

text \<open>\<^verbatim>\<open>if (oldestKey) this.store.delete(oldestKey)\<close>: \<^verbatim>\<open>null\<close> and the empty string are
  falsy.\<close>

definition evict_oldest :: "rl_store \<Rightarrow> rl_store" where
  "evict_oldest s =
     (case fst (oldest_scan (None, None) (store s)) of
        None \<Rightarrow> s
      | Some oldestKey \<Rightarrow>
          if oldestKey = [] then s
          else s\<lparr> store := store_delete oldestKey (store s) \<rparr>)"

definition get_entry :: "string \<Rightarrow> rl_store \<Rightarrow> rl_entry option" where
  "get_entry key s = map_of (store s) key"

definition set_entry :: "int \<Rightarrow> string \<Rightarrow> rl_entry \<Rightarrow> rl_store \<Rightarrow> rl_store" where
  "set_entry now key v s =
     (let s1 = (if length (store s) \<ge> maxEntries s then cleanup now s else s);
          s2 = (if length (store s1) \<ge> maxEntries s1 then evict_oldest s1 else s1)
      in s2\<lparr> store := store_set key v (store s2) \<rparr>)"

text \<open>The operations of the class, each with the clock reading it makes.\<close>

datatype rl_op = Get string | Set int string rl_entry | TriggerCleanup int

fun apply_op :: "rl_op \<Rightarrow> rl_store \<Rightarrow> rl_store" where
  "apply_op (Get key) s = s"
| "apply_op (Set now key v) s = set_entry now key v s"
| "apply_op (TriggerCleanup now) s = cleanup now s"

fun run_ops :: "rl_op list \<Rightarrow> rl_store \<Rightarrow> rl_store" where
  "run_ops [] s = s"
| "run_ops (x # xs) s = run_ops xs (apply_op x s)"

text \<open>The keys an operation stores under.\<close>

fun op_keys :: "rl_op \<Rightarrow> string list" where
  "op_keys (Get key) = []"
| "op_keys (Set now key v) = [key]"
| "op_keys (TriggerCleanup now) = []"

subsection \<open>checkRateLimit\<close>

record rl_result =
  rl_allowed :: bool
  rl_remaining :: int
  rl_reset :: int
  rl_limit :: int

text \<open>\<open>t0\<close>, \<open>now\<close> and \<open>t2\<close> are the clock readings of \<^verbatim>\<open>triggerCleanup\<close>, of
  \<^verbatim>\<open>checkRateLimit\<close> itself and of the \<^verbatim>\<open>set\<close> it ends with.\<close>

definition checkRateLimit ::
  "int \<Rightarrow> int \<Rightarrow> int \<Rightarrow> string \<Rightarrow> int \<Rightarrow> int \<Rightarrow> rl_store \<Rightarrow> rl_result \<times> rl_store" where
  "checkRateLimit t0 now t2 key limit windowMs s =
     (let s0 = cleanup t0 s;
          renew = (\<lparr> rl_allowed = True, rl_remaining = limit - 1, rl_reset = now + windowMs,
                      rl_limit = limit \<rparr>,
                   set_entry t2 key \<lparr> rl_count = 1, rl_resetTime = now + windowMs \<rparr> s0)
      in case get_entry key s0 of
           None \<Rightarrow> renew
         | Some existing \<Rightarrow>
             if now > rl_resetTime existing then renew
             else (\<lparr> rl_allowed = (rl_count existing + 1 \<le> limit),
                      rl_remaining = max 0 (limit - (rl_count existing + 1)),
                      rl_reset = rl_resetTime existing, rl_limit = limit \<rparr>,
                   set_entry t2 key \<lparr> rl_count = rl_count existing + 1,
                                       rl_resetTime = rl_resetTime existing \<rparr> s0))"

text \<open>The key the middleware builds: \<^verbatim>\<open>`${tier}:${ip}`\<close>.\<close>

definition rate_key :: "string \<Rightarrow> string \<Rightarrow> string" where
  "rate_key tier ip = tier @ '':'' @ ip"

subsection \<open>The behaviour the claim describes\<close>

text \<open>
  \<open>set\<close> as claim C10 words it: first evict the expired entries, then, if still at
  capacity, evict the entry with the oldest reset time, then insert.
\<close>

definition evict_expired :: "int \<Rightarrow> rl_store \<Rightarrow> rl_store" where
  "evict_expired now s = s\<lparr> store := filter (\<lambda>p. \<not> now > rl_resetTime (snd p)) (store s) \<rparr>"

definition evict_oldest_entry :: "rl_store \<Rightarrow> rl_store" where
  "evict_oldest_entry s =
     (case fst (oldest_scan (None, None) (store s)) of
        None \<Rightarrow> s
      | Some oldestKey \<Rightarrow> s\<lparr> store := store_delete oldestKey (store s) \<rparr>)"

definition set_as_claimed :: "int \<Rightarrow> string \<Rightarrow> rl_entry \<Rightarrow> rl_store \<Rightarrow> rl_store" where
  "set_as_claimed now key v s =
     (let s1 = evict_expired now s;
          s2 = (if length (store s1) \<ge> maxEntries s1 then evict_oldest_entry s1 else s1)
      in s2\<lparr> store := store_set key v (store s2) \<rparr>)"

text \<open>Keys occur once and none is empty.\<close>

definition keys_ok :: "rl_store \<Rightarrow> bool" where
  "keys_ok s = (distinct (map fst (store s)) \<and> [] \<notin> fst ` set (store s))"

text \<open>The invariant of the store: well-formed keys, a positive maximum, and no more
  entries than the maximum.\<close>

definition bounded :: "rl_store \<Rightarrow> bool" where
  "bounded s = (keys_ok s \<and> 1 \<le> maxEntries s \<and> length (store s) \<le> maxEntries s)"


section \<open>Concrete inputs\<close>

subsection \<open>Runs of the feed ingest processor\<close>

definition prisma_unique_violation :: thrown where
  "prisma_unique_violation =
     ErrorObj ''P2002'' ''Unique constraint failed on the fields: (`series_id`,`chapter_number`,`source_name`,`external_event_id`)''"

definition quiet_io :: "timestamp \<Rightarrow> item_env" where
  "quiet_io t = \<lparr> clock = t, find_fault = None, create_fault = None, update_fault = None \<rparr>"

definition paused_env :: env where
  "paused_env = \<lparr> queue_total = 5001, queue_isOverloaded = True, fresh_run_id = ''run-1'',
     start_time = 1000, end_time = 1007, query_time = 1001,
     fetchLatestChapters = (\<lambda>n. Inr []), release_query_fault = None,
     item_io = (\<lambda>i. quiet_io 1002),
     unique_violation = prisma_unique_violation,
     complete_fault = None \<rparr>"

definition empty_world :: world where
  "empty_world = \<lparr> series_tbl = [], event_tbl = [], release_tbl = [], run_tbl = [], effects = [] \<rparr>"

definition mangadex_job :: job where
  "mangadex_job = \<lparr> job_source = ''mangadex'', job_tier = ''A'', job_limit = None \<rparr>"

definition throttled_env :: env where
  "throttled_env = paused_env \<lparr> queue_total := 12, queue_isOverloaded := False,
     fetchLatestChapters := (\<lambda>n. Inl (ErrorObj ''Error'' ''MangaDex API error: 429 Too Many Requests'')) \<rparr>"

definition silent_error_env :: env where
  "silent_error_env = paused_env \<lparr> queue_total := 12, queue_isOverloaded := False,
     fetchLatestChapters := (\<lambda>n. Inl (ErrorObj ''Error'' [])) \<rparr>"

definition series_s1 :: series_row where
  "series_s1 = \<lparr> series_id = ''s1'', series_title = ''Series One'', mangadex_id = Some ''md-1'',
     last_chapter_released_at = None, deleted_at = None \<rparr>"

definition release_r1 :: mu_release where
  "release_r1 = \<lparr> mu_series_id = Some ''s1'', mu_created_at = 5000, mu_chapter = Some ''10.5'',
     mu_release_id = ''mu-77'', mu_published_at = None \<rparr>"

definition mu_world :: world where
  "mu_world = \<lparr> series_tbl = [series_s1], event_tbl = [], release_tbl = [release_r1],
     run_tbl = [], effects = [] \<rparr>"

definition mu_env :: env where
  "mu_env = paused_env \<lparr> queue_total := 12, queue_isOverloaded := False, query_time := 6000 \<rparr>"

definition mu_job :: job where
  "mu_job = \<lparr> job_source = ''mangaupdates'', job_tier = ''B'', job_limit = Some 10 \<rparr>"

definition event_e1 :: event_row where
  "event_e1 = \<lparr> ev_series_id = ''s1'', ev_chapter_number = ''10.5'', ev_source_name = ''mangaupdates'',
     ev_external_event_id = ''mu-77'', ev_discovered_at = 5000, ev_published_at = None,
     ev_process_status = ''processed'' \<rparr>"

definition mu_env2 :: env where
  "mu_env2 = mu_env \<lparr> fresh_run_id := ''run-2'', start_time := 2000, end_time := 2009, query_time := 7000 \<rparr>"


text \<open>Throttled runs: the signal carried by the failure class only, a thrown value
  that is no \<^verbatim>\<open>Error\<close>, and a throttled run whose finalising update the database rejects.\<close>

definition class_only_error :: thrown where
  "class_only_error = ErrorObj ''429'' ''Too Many Requests''"

definition throttled_by_class_env :: env where
  "throttled_by_class_env = throttled_env \<lparr> fetchLatestChapters := (\<lambda>n. Inl class_only_error) \<rparr>"

definition throttled_non_error_env :: env where
  "throttled_non_error_env = throttled_env \<lparr> fetchLatestChapters := (\<lambda>n. Inl NonError) \<rparr>"

definition storage_down :: thrown where
  "storage_down = ErrorObj ''P1001'' ''Cannot reach database server''"

definition throttled_unfinalised_env :: env where
  "throttled_unfinalised_env = throttled_env \<lparr> complete_fault := Some storage_down \<rparr>"

text \<open>Two chapters of one tracked series in one batch.\<close>

definition chapter_a :: md_chapter where
  "chapter_a = \<lparr> md_id = ''ch-a'', md_relationships = [(''scanlation_group'', ''g1''), (''manga'', ''md-1'')],
     md_chapter_attr = Some ''12'', md_publishAt = None \<rparr>"

definition chapter_b :: md_chapter where
  "chapter_b = chapter_a \<lparr> md_id := ''ch-b'', md_chapter_attr := Some ''13'' \<rparr>"

definition batch_env :: env where
  "batch_env = paused_env \<lparr> queue_total := 12, queue_isOverloaded := False,
     fetchLatestChapters := (\<lambda>n. Inr [chapter_a, chapter_b]) \<rparr>"

definition batch_world :: world where
  "batch_world = empty_world \<lparr> series_tbl := [series_s1] \<rparr>"


subsection \<open>An interleaving of two advances\<close>

definition series_s2 :: series_row where
  "series_s2 = \<lparr> series_id = ''s2'', series_title = ''Series Two'', mangadex_id = None,
     last_chapter_released_at = Some 3000, deleted_at = None \<rparr>"

definition two_callers :: "sched_step list" where
  "two_callers = [Snapshot 0, Snapshot 1, Advance 1, Advance 0]"

definition two_candidates :: "nat \<Rightarrow> timestamp" where
  "two_candidates i = (if i = 0 then 5000 else 9000)"


subsection \<open>Calls of the on-demand sync\<close>

definition sid1 :: string where
  "sid1 = ''1f3a9c2e-7b4d-4e8a-9c1f-2d3e4f5a6b7c''"

definition series_one :: series_row where
  "series_one = \<lparr> series_id = sid1, series_title = ''Series One'', mangadex_id = None,
     last_chapter_released_at = None, deleted_at = None \<rparr>"

definition source_one :: series_source where
  "source_one = \<lparr> ss_series_id = sid1, ss_source_name = ''mangadex'', ss_source_id = ''md-1'',
     ss_source_url = ''https://mangadex.org/title/md-1'', ss_source_title = ''Series One'',
     ss_sync_priority = ''COLD'' \<rparr>"

text \<open>A series with a bound source and no chapter yet.\<close>

definition db_cold :: sync_db where
  "db_cold = \<lparr> sd_series = [series_one], sd_sources = [source_one], sd_chapters = [],
     sd_chapter_sources = [], sd_locks = [] \<rparr>"

text \<open>The same series with one real chapter that has a source row.\<close>

definition db_synced :: sync_db where
  "db_synced = db_cold \<lparr>
     sd_chapters := [\<lparr> ch_id = ''c1'', ch_series_id = sid1, ch_title = Some ''Chapter 1'',
                       ch_deleted_at = None \<rparr>],
     sd_chapter_sources := [\<lparr> cs_id = ''cs1'', cs_chapter_id = ''c1'' \<rparr>] \<rparr>"

text \<open>A series with no source and no MangaDex id.\<close>

definition db_unbound :: sync_db where
  "db_unbound = db_cold \<lparr> sd_sources := [] \<rparr>"

definition fresh :: "sync_db \<Rightarrow> sync_state" where
  "fresh db = \<lparr> st_db = db, st_trace = [] \<rparr>"

text \<open>An environment without faults whose MangaDex scraper finds two chapters, an
  environment whose scraper finds none, and one whose scraper and unlock query reject.\<close>

definition env_ok :: "string sync_env" where
  "env_ok = \<lparr> lock_fault = None, counts_fault = None, series_fault = None, upsert_fault = None,
     titles_fault = None, unlock_fault = None,
     scrapers = (\<lambda>name. if name = ''mangadex'' then Some (\<lambda>id. Inr [''1'', ''2'']) else None),
     syncChapters = (\<lambda>sid source_id source_name chapters db. Inr db) \<rparr>"

definition env_empty :: "string sync_env" where
  "env_empty = env_ok \<lparr> scrapers := (\<lambda>name. if name = ''mangadex'' then Some (\<lambda>id. Inr []) else None) \<rparr>"

definition scrape_error :: thrown where
  "scrape_error = ErrorObj ''Error'' ''fetch failed''"

definition unlock_error :: thrown where
  "unlock_error = ErrorObj ''P1001'' ''Cannot reach database server''"

definition env_failing :: "string sync_env" where
  "env_failing = env_ok \<lparr> unlock_fault := Some unlock_error,
     scrapers := (\<lambda>name. if name = ''mangadex'' then Some (\<lambda>id. Inl scrape_error) else None) \<rparr>"

subsection \<open>Alerts\<close>

definition source_alert :: "timestamp \<Rightarrow> int \<Rightarrow> dlq_alert" where
  "source_alert stamp n =
     \<lparr> alert_type = Source_failure, alert_entityId = Some ''mangadex'',
       alert_failureCount = n, alert_message = ''source failing'',
       alert_timestamp = stamp, alert_severity = Error \<rparr>"

subsection \<open>Operation sequences on the store\<close>

text \<open>A flood of \<open>n\<close> fresh non-empty keys, all set at clock reading 0 with reset time 2,
  and the store content it builds.\<close>

definition filler_key :: "nat \<Rightarrow> string" where
  "filler_key i = replicate (Suc i) CHR ''k''"

definition filler_entry :: rl_entry where
  "filler_entry = \<lparr> rl_count = 1, rl_resetTime = 2 \<rparr>"

definition first_entry :: rl_entry where
  "first_entry = \<lparr> rl_count = 1, rl_resetTime = 1 \<rparr>"

definition filler :: "nat \<Rightarrow> (string \<times> rl_entry) list" where
  "filler n = map (\<lambda>i. (filler_key i, filler_entry)) [0..<n]"

definition flood :: "nat \<Rightarrow> rl_op list" where
  "flood n = map (\<lambda>i. Set 0 (filler_key i) filler_entry) [0..<n]"

text \<open>A short sequence with keys of the middleware's shape.\<close>

definition small_entry :: rl_entry where
  "small_entry = \<lparr> rl_count = 1, rl_resetTime = 60000 \<rparr>"

definition small_ops :: "rl_op list" where
  "small_ops = [Set 0 ''public:10.0.0.1'' small_entry, Get ''public:10.0.0.1'',
                Set 1 ''public:10.0.0.2'' (small_entry\<lparr> rl_resetTime := 60001 \<rparr>),
                TriggerCleanup 2,
                Set 3 ''auth:10.0.0.3'' (small_entry\<lparr> rl_resetTime := 60003 \<rparr>)]"


section \<open>Properties of the feed ingest processor\<close>

subsection \<open>What a run leaves alone\<close>

text \<open>Processing the fetched items writes events and watermarks only: the run table and
  the record of effects are as the fetch left them.\<close>

lemma record_event_frame:
  "run_tbl (fst (record_event e io snap row st)) = run_tbl (fst st) \<and>
   effects (fst (record_event e io snap row st)) = effects (fst st)"
  by (cases st) (simp add: record_event_def Let_def split: sum.splits option.splits)

lemma ingest_chapter_frame:
  "run_tbl (fst (ingest_chapter e snapshot i ch st)) = run_tbl (fst st) \<and>
   effects (fst (ingest_chapter e snapshot i ch st)) = effects (fst st)"
  by (cases st) (simp add: ingest_chapter_def record_event_frame split: option.splits)

lemma ingest_members_frame:
  "run_tbl (fst (ingest_members e snapshot i chs st)) = run_tbl (fst st) \<and>
   effects (fst (ingest_members e snapshot i chs st)) = effects (fst st)"
  by (induction chs arbitrary: i st) (simp_all add: ingest_chapter_frame)

lemma ingest_batch_frame:
  "run_tbl (fst (ingest_batch e i chs st)) = run_tbl (fst st) \<and>
   effects (fst (ingest_batch e i chs st)) = effects (fst st)"
  by (simp add: ingest_batch_def ingest_members_frame)

lemma ingest_batches_frame:
  "run_tbl (fst (ingest_batches e i rest st)) = run_tbl (fst st) \<and>
   effects (fst (ingest_batches e i rest st)) = effects (fst st)"
proof (induction e i rest st rule: ingest_batches.induct)
  case (1 e i rest st)
  show ?case
  proof (cases "rest = []")
    case True
    then show ?thesis by (simp add: ingest_batches.simps)
  next
    case False
    with 1 show ?thesis
      by (subst (1 2) ingest_batches.simps) (simp add: ingest_batch_frame)
  qed
qed

lemma ingest_release_frame:
  "run_tbl (fst (ingest_release e i r st)) = run_tbl (fst st) \<and>
   effects (fst (ingest_release e i r st)) = effects (fst st)"
  by (cases st) (simp add: ingest_release_def record_event_frame split: option.splits)

lemma ingest_releases_frame:
  "run_tbl (fst (ingest_releases e i rs st)) = run_tbl (fst st) \<and>
   effects (fst (ingest_releases e i rs st)) = effects (fst st)"
  by (induction rs arbitrary: i st) (simp_all add: ingest_release_frame)

lemma ingestMangaDexChapters_frame:
  "run_tbl (snd (ingestMangaDexChapters e rid limit w)) = run_tbl w \<and>
   filter is_run_update (effects (snd (ingestMangaDexChapters e rid limit w))) =
     filter is_run_update (effects w)"
proof (cases "fetchLatestChapters e (min limit 100)")
  case (Inl err)
  then show ?thesis
    by (simp add: ingestMangaDexChapters_def Let_def is_run_update_def)
next
  case (Inr chs)
  define w0 where "w0 = w\<lparr> effects := effects w @ [AdapterCall (min limit 100)] \<rparr>"
  obtain w1 c where eq:
    "ingest_batches e 0 chs (w0, zero_counters\<lparr> events_fetched := length chs \<rparr>) = (w1, c)"
    by fastforce
  from ingest_batches_frame [of e 0 chs "(w0, zero_counters\<lparr> events_fetched := length chs \<rparr>)"] eq
  have "run_tbl w1 = run_tbl w0" "effects w1 = effects w0"
    by simp_all
  with Inr eq show ?thesis
    by (simp add: ingestMangaDexChapters_def Let_def is_run_update_def w0_def)
qed

lemma ingestMangaUpdatesReleases_frame:
  "run_tbl (snd (ingestMangaUpdatesReleases e rid limit w)) = run_tbl w \<and>
   filter is_run_update (effects (snd (ingestMangaUpdatesReleases e rid limit w))) =
     filter is_run_update (effects w)"
proof (cases "release_query_fault e")
  case (Some err)
  then show ?thesis
    by (simp add: ingestMangaUpdatesReleases_def Let_def is_run_update_def)
next
  case None
  define w0 where "w0 = w\<lparr> effects := effects w @ [ReleaseQuery limit] \<rparr>"
  define rs where "rs = recent_releases (query_time e) limit w0"
  obtain w1 c where eq:
    "ingest_releases e 0 rs (w0, zero_counters\<lparr> events_fetched := length rs \<rparr>) = (w1, c)"
    by fastforce
  from ingest_releases_frame [of e 0 rs "(w0, zero_counters\<lparr> events_fetched := length rs \<rparr>)"] eq
  have "run_tbl w1 = run_tbl w0" "effects w1 = effects w0"
    by simp_all
  with None eq show ?thesis
    by (simp add: ingestMangaUpdatesReleases_def Let_def is_run_update_def w0_def rs_def)
qed

lemma run_source_frame:
  "run_tbl (snd (run_source e src rid limit w)) = run_tbl w \<and>
   filter is_run_update (effects (snd (run_source e src rid limit w))) =
     filter is_run_update (effects w)"
  using ingestMangaDexChapters_frame [of e rid limit w]
    ingestMangaUpdatesReleases_frame [of e rid limit w]
  by (cases "ingestMangaUpdatesReleases e rid limit w") (auto simp add: run_source_def)


subsection \<open>Evaluating concrete MangaDex runs\<close>

lemmas run_eval =
  processFeedIngest_def checkQueueHealth_def createIngestRun_def Let_def
  run_source_def ingestMangaDexChapters_def completeIngestRun_def empty_world_def
  throttled_env_def paused_env_def mangadex_job_def MAX_EVENTS_PER_RUN_def
  is_rate_limit_error_def fail_run_def errorMessage_def truthy_message_def zero_counters_def

text \<open>
  Two chapters of one series in one batch, discovered at the same clock reading: both
  members read the series before either update, so both find no watermark, both issue
  the update and \<open>series_updated\<close> is 2.
\<close>

lemma batch_members_share_snapshot:
  "map_sum id res_counters (fst (processFeedIngest batch_env mangadex_job batch_world)) =
     Inr \<lparr> events_fetched = 2, events_created = 2, events_skipped = 0,
            series_updated = 2, errors = 0, rate_limit_hits = 0 \<rparr>
   \<and> map last_chapter_released_at
         (series_tbl (snd (processFeedIngest batch_env mangadex_job batch_world))) = [Some 1002]
   \<and> length (event_tbl (snd (processFeedIngest batch_env mangadex_job batch_world))) = 2"
  by (simp add: run_eval batch_env_def batch_world_def chapter_a_def chapter_b_def series_s1_def
      ingest_batches.simps BATCH_SIZE_def ingest_batch_def ingest_chapter_def record_event_def
      create_event_def event_key_def shouldUpdate_def update_watermark_def update_row_def
      greatest_update_def coalesce_epoch_def quiet_io_def)

subsection \<open>Backpressure gate\<close>

text \<open>
  Claim C3. When the queue-health check reports \<open>healthy = false\<close>, \<open>processFeedIngest\<close>
  returns the result with \<open>paused_due_to_queue_depth = true\<close>, an empty run id and all
  counters zero, and the world is the one it started from: no run row was created, no
  adapter call and no release query was made, no event or series row was touched.
\<close>

theorem C3_backpressure_gate:
  assumes "fst (checkQueueHealth e) = False"
  shows "processFeedIngest e j w =
           (Inr \<lparr> res_source = job_source j, res_tier = job_tier j, res_runId = [],
                  res_counters = zero_counters,
                  res_duration_ms = end_time e - start_time e,
                  res_paused_due_to_queue_depth = Some True \<rparr>, w)"
  using assms by (simp add: processFeedIngest_def checkQueueHealth_def Let_def)

theorem C3_backpressure_gate_witness:
  "fst (checkQueueHealth paused_env) = False \<and>
   run_tbl (snd (processFeedIngest paused_env mangadex_job empty_world)) = [] \<and>
   effects (snd (processFeedIngest paused_env mangadex_job empty_world)) = [] \<and>
   map_sum id res_paused_due_to_queue_depth
     (fst (processFeedIngest paused_env mangadex_job empty_world)) = Inr (Some True)"
proof -
  have h: "fst (checkQueueHealth paused_env) = False"
    by (simp add: checkQueueHealth_def paused_env_def)
  show ?thesis
    using h C3_backpressure_gate [OF h, of mangadex_job empty_world]
    by (simp add: empty_world_def)
qed

subsection \<open>Upstream rate limiting\<close>

text \<open>
  Claim C5, as amended. In a MangaDex run that passes the backpressure gate, when the
  adapter call rejects with the throttling signal the processor recognises (an
  \<^verbatim>\<open>Error\<close> whose message contains the text \<^verbatim>\<open>429\<close>) and the finalising update is
  accepted, the run returns a result instead of re-throwing, with \<open>rate_limit_hits = 1\<close>
  and every other counter zero (the single fetch call retrieved nothing before the
  signal); the run row is finalised \<open>completed\<close> with no error message by exactly one
  update, and no event or series row is written.
\<close>

theorem C5_rate_limit_graceful:
  assumes healthy: "fst (checkQueueHealth e)"
    and src: "job_source j = ''mangadex''"
    and throttled:
      "fetchLatestChapters e
         (min (case job_limit j of None \<Rightarrow> MAX_EVENTS_PER_RUN | Some l \<Rightarrow> l) 100) = Inl err"
      "is_rate_limit_error err"
    and fin: "complete_fault e = None"
  shows "fst (processFeedIngest e j w) =
           Inr \<lparr> res_source = ''mangadex'', res_tier = job_tier j, res_runId = fresh_run_id e,
                  res_counters = zero_counters\<lparr> rate_limit_hits := 1 \<rparr>,
                  res_duration_ms = end_time e - start_time e,
                  res_paused_due_to_queue_depth = None \<rparr>
       \<and> run_status (last (run_tbl (snd (processFeedIngest e j w)))) = ''completed''
       \<and> run_rate_limit_hits (last (run_tbl (snd (processFeedIngest e j w)))) = 1
       \<and> run_events_fetched (last (run_tbl (snd (processFeedIngest e j w)))) = 0
       \<and> run_error_count (last (run_tbl (snd (processFeedIngest e j w)))) = 0
       \<and> run_error_message (last (run_tbl (snd (processFeedIngest e j w)))) = None
       \<and> effects (snd (processFeedIngest e j w)) =
           effects w @ [RunCreated (fresh_run_id e),
                        AdapterCall (min (case job_limit j of None \<Rightarrow> MAX_EVENTS_PER_RUN | Some l \<Rightarrow> l) 100),
                        RunUpdated (fresh_run_id e) ''completed'']
       \<and> event_tbl (snd (processFeedIngest e j w)) = event_tbl w
       \<and> series_tbl (snd (processFeedIngest e j w)) = series_tbl w"
  using assms
  by (simp add: processFeedIngest_def checkQueueHealth_def createIngestRun_def Let_def
      run_source_def ingestMangaDexChapters_def completeIngestRun_def truthy_message_def
      zero_counters_def)

theorem C5_rate_limit_graceful_witness:
  "fst (checkQueueHealth throttled_env) \<and>
   is_rate_limit_error (ErrorObj ''Error'' ''MangaDex API error: 429 Too Many Requests'') \<and>
   map_sum id (\<lambda>r. rate_limit_hits (res_counters r)) (fst (processFeedIngest throttled_env mangadex_job empty_world)) = Inr 1 \<and>
   map run_status (run_tbl (snd (processFeedIngest throttled_env mangadex_job empty_world))) = [''completed'']"
proof -
  have h1: "fst (checkQueueHealth throttled_env)"
    by (simp add: checkQueueHealth_def throttled_env_def paused_env_def)
  have h2: "job_source mangadex_job = ''mangadex''"
    by (simp add: mangadex_job_def)
  have h3: "fetchLatestChapters throttled_env
         (min (case job_limit mangadex_job of None \<Rightarrow> MAX_EVENTS_PER_RUN | Some l \<Rightarrow> l) 100) =
        Inl (ErrorObj ''Error'' ''MangaDex API error: 429 Too Many Requests'')"
    by (simp add: throttled_env_def paused_env_def)
  have h4: "is_rate_limit_error (ErrorObj ''Error'' ''MangaDex API error: 429 Too Many Requests'')"
    by (simp add: is_rate_limit_error_def)
  have h5: "complete_fault throttled_env = None"
    by (simp add: throttled_env_def paused_env_def)
  have tbl: "length (run_tbl (snd (processFeedIngest throttled_env mangadex_job empty_world))) = 1"
    using h1 h2 h3 h4 h5
    by (simp add: processFeedIngest_def checkQueueHealth_def createIngestRun_def Let_def
      run_source_def ingestMangaDexChapters_def completeIngestRun_def empty_world_def)
  show ?thesis
    using h1 h4 tbl C5_rate_limit_graceful [OF h1 h2 h3 h4 h5, of empty_world]
    by (cases "run_tbl (snd (processFeedIngest throttled_env mangadex_job empty_world))") auto
qed

text \<open>
  Claim C5 as stated covers every throttling signal. The processor tells throttling from
  other failures by the text of the message, so a throttling error that carries the
  status in its failure class only (class \<^verbatim>\<open>429\<close>, message \<^verbatim>\<open>Too Many Requests\<close>) is
  re-thrown and the run finalised \<open>failed\<close> with \<open>rate_limit_hits = 0\<close>, as is a thrown
  value that is not an \<^verbatim>\<open>Error\<close>. And a run whose adapter call did reject with a
  \<^verbatim>\<open>429\<close> message still ends \<open>failed\<close>, with the storage error re-thrown, when the
  finalising update is rejected.
\<close>

theorem C5_counterexample:
  "fst (processFeedIngest throttled_by_class_env mangadex_job empty_world) = Inl class_only_error
   \<and> map run_status (run_tbl (snd (processFeedIngest throttled_by_class_env mangadex_job empty_world)))
       = [''failed'']
   \<and> map run_rate_limit_hits
         (run_tbl (snd (processFeedIngest throttled_by_class_env mangadex_job empty_world))) = [0]
   \<and> fst (processFeedIngest throttled_non_error_env mangadex_job empty_world) = Inl NonError
   \<and> map run_status (run_tbl (snd (processFeedIngest throttled_non_error_env mangadex_job empty_world)))
       = [''failed'']
   \<and> fst (processFeedIngest throttled_unfinalised_env mangadex_job empty_world) = Inl storage_down
   \<and> map run_status (run_tbl (snd (processFeedIngest throttled_unfinalised_env mangadex_job empty_world)))
       = [''failed'']"
  by (simp add: run_eval throttled_by_class_env_def class_only_error_def
      throttled_non_error_env_def throttled_unfinalised_env_def storage_down_def)


subsection \<open>Finalising the run\<close>

text \<open>
  Every run that passes the backpressure gate ends with exactly one finalising update of
  its row. The status written is \<open>failed\<close> exactly when an error escapes whose captured
  message is not empty.
\<close>

lemma processFeedIngest_finalises_once:
  assumes "fst (checkQueueHealth e)"
  shows "filter is_run_update (effects (snd (processFeedIngest e j w))) =
           filter is_run_update (effects w) @
             [RunUpdated (fresh_run_id e) (final_status (fst (processFeedIngest e j w)))]
       \<and> run_status (last (run_tbl (snd (processFeedIngest e j w)))) =
           final_status (fst (processFeedIngest e j w))"
proof -
  define limit where "limit = (case job_limit j of None \<Rightarrow> MAX_EVENTS_PER_RUN | Some l \<Rightarrow> l)"
  define w1 where "w1 = snd (createIngestRun e (job_source j) (job_tier j) w)"
  define r where "r = run_source e (job_source j) (fresh_run_id e) limit w1"
  have fr: "run_tbl (snd r) = run_tbl w1"
    "filter is_run_update (effects (snd r)) = filter is_run_update (effects w1)"
    using run_source_frame [of e "job_source j" "fresh_run_id e" limit w1] by (simp_all add: r_def)
  have w1s: "run_tbl w1 \<noteq> []" "run_id (last (run_tbl w1)) = fresh_run_id e"
    "filter is_run_update (effects w1) = filter is_run_update (effects w)"
    by (simp_all add: w1_def createIngestRun_def is_run_update_def)
  have unf: "processFeedIngest e j w =
      (case r of (Inl err, w2) \<Rightarrow> fail_run e (fresh_run_id e) err w2
       | (Inr c, w2) \<Rightarrow> (case complete_fault e of
                  Some err \<Rightarrow> fail_run e (fresh_run_id e) err w2
                | None \<Rightarrow>
                    (Inr \<lparr> res_source = job_source j, res_tier = job_tier j, res_runId = fresh_run_id e,
                           res_counters = c,
                           res_duration_ms = end_time e - start_time e,
                           res_paused_due_to_queue_depth = None \<rparr>,
                     completeIngestRun (end_time e) (fresh_run_id e) c None w2)))"
    using assms
    by (simp add: processFeedIngest_def checkQueueHealth_def Let_def r_def w1_def limit_def
        createIngestRun_def)
  have fin: "\<And>now c msg w2. run_tbl w2 = run_tbl w1 \<Longrightarrow>
      run_status (last (run_tbl (completeIngestRun now (fresh_run_id e) c msg w2))) =
        (if truthy_message msg then ''failed'' else ''completed'')"
    using w1s by (simp add: completeIngestRun_def Let_def last_map)
  have eff: "\<And>now c msg w2.
      filter is_run_update (effects (completeIngestRun now (fresh_run_id e) c msg w2)) =
        filter is_run_update (effects w2) @
          [RunUpdated (fresh_run_id e) (if truthy_message msg then ''failed'' else ''completed'')]"
    by (simp add: completeIngestRun_def Let_def is_run_update_def)
  show ?thesis
    using fr w1s(3)
    by (cases r; cases "fst r"; cases "complete_fault e")
       (auto simp add: unf fail_run_def fin eff final_status_def truthy_message_def)
qed

text \<open>
  Claim C6, at the input where the code departs from it. The adapter call of a MangaDex
  run rejects with an \<^verbatim>\<open>Error\<close> whose message is the empty string. The error is
  re-raised to the caller, but \<^verbatim>\<open>completeIngestRun\<close> tests the message for truthiness,
  so the run row is finalised \<open>completed\<close> with no error message and an error count of 1,
  where the claim says \<open>failed\<close> with the captured message.
\<close>

theorem C6_empty_message_finalised_completed:
  "fst (processFeedIngest silent_error_env mangadex_job empty_world) = Inl (ErrorObj ''Error'' []) \<and>
   map run_status (run_tbl (snd (processFeedIngest silent_error_env mangadex_job empty_world))) = [''completed''] \<and>
   map run_error_message (run_tbl (snd (processFeedIngest silent_error_env mangadex_job empty_world))) = [None] \<and>
   map run_error_count (run_tbl (snd (processFeedIngest silent_error_env mangadex_job empty_world))) = [1]"
  by (simp add: processFeedIngest_def checkQueueHealth_def createIngestRun_def Let_def
      run_source_def ingestMangaDexChapters_def completeIngestRun_def empty_world_def
      silent_error_env_def paused_env_def mangadex_job_def MAX_EVENTS_PER_RUN_def
      is_rate_limit_error_def fail_run_def errorMessage_def truthy_message_def zero_counters_def)

subsection \<open>Idempotent persistence\<close>

text \<open>The model of \<^verbatim>\<open>create\<close> keeps the uniqueness constraint, and under the constraint
  a stored key has exactly one row.\<close>

lemma create_event_unique_keys:
  "unique_keys tbl \<Longrightarrow> create_event uniq fault row tbl = Inr tbl' \<Longrightarrow> unique_keys tbl'"
  by (auto simp add: create_event_def unique_keys_def split: option.splits if_splits)

lemma record_event_unique_keys:
  "unique_keys (event_tbl (fst st)) \<Longrightarrow> unique_keys (event_tbl (fst (record_event e io snap row st)))"
  by (cases st)
     (auto simp add: record_event_def Let_def create_event_unique_keys
        split: sum.splits option.splits)

lemma rows_with_key_unique:
  "unique_keys tbl \<Longrightarrow> k \<in> event_key ` set tbl \<Longrightarrow> length (rows_with_key k tbl) = 1"
proof (induction tbl)
  case Nil
  then show ?case by simp
next
  case (Cons r tbl)
  show ?case
  proof (cases "event_key r = k")
    case True
    with Cons.prems have "k \<notin> event_key ` set tbl"
      by (auto simp add: unique_keys_def)
    then have "rows_with_key k tbl = []"
      by (auto simp add: rows_with_key_def filter_empty_conv)
    with True show ?thesis by (simp add: rows_with_key_def)
  next
    case False
    with Cons show ?thesis by (auto simp add: rows_with_key_def unique_keys_def)
  qed
qed

text \<open>
  Claim C2, as amended. In a table that satisfies the uniqueness constraint and already
  holds a row with the observation's idempotency key, persisting the observation again
  leaves the whole world as it was (so exactly one row has that key) and counts the
  attempt as skipped, with the error counter untouched, provided no other storage failure
  strikes and the storage layer reports the uniqueness violation as an \<^verbatim>\<open>Error\<close> whose
  message contains the text \<^verbatim>\<open>Unique constraint\<close>: the processor recognises a duplicate
  by that substring of the message, not by the failure class, so two errors with the same
  message are counted alike whatever their classes are.
\<close>

theorem C2_duplicate_is_skipped:
  assumes constraint: "unique_keys (event_tbl w)"
    and stored: "event_key row \<in> event_key ` set (event_tbl w)"
    and msg: "is_unique_constraint_error (unique_violation e)"
    and no_other_failure: "create_fault io = None"
  shows "record_event e io snap row (w, c) = (w, c\<lparr> events_skipped := events_skipped c + 1 \<rparr>)
       \<and> length (rows_with_key (event_key row) (event_tbl w)) = 1
       \<and> on_item_error (ErrorObj code msg) c = on_item_error (ErrorObj code' msg) c"
  using assms
  by (simp add: record_event_def create_event_def on_item_error_def rows_with_key_unique
      is_unique_constraint_error_def)

theorem C2_duplicate_is_skipped_witness:
  "unique_keys (event_tbl (mu_world\<lparr> event_tbl := [event_e1] \<rparr>)) \<and>
   event_key event_e1 \<in> event_key ` set (event_tbl (mu_world\<lparr> event_tbl := [event_e1] \<rparr>)) \<and>
   is_unique_constraint_error (unique_violation mu_env2) \<and>
   create_fault (quiet_io 7000) = None \<and>
   record_event mu_env2 (quiet_io 7000) series_s1 event_e1
       (mu_world\<lparr> event_tbl := [event_e1] \<rparr>, zero_counters) =
     (mu_world\<lparr> event_tbl := [event_e1] \<rparr>, zero_counters\<lparr> events_skipped := 1 \<rparr>) \<and>
   length (rows_with_key (event_key event_e1) (event_tbl (mu_world\<lparr> event_tbl := [event_e1] \<rparr>))) = 1"
proof -
  have h1: "unique_keys (event_tbl (mu_world\<lparr> event_tbl := [event_e1] \<rparr>))"
    by (simp add: unique_keys_def)
  have h2: "event_key event_e1 \<in> event_key ` set (event_tbl (mu_world\<lparr> event_tbl := [event_e1] \<rparr>))"
    by simp
  have h3: "is_unique_constraint_error (unique_violation mu_env2)"
    by (simp add: mu_env2_def mu_env_def paused_env_def prisma_unique_violation_def
        is_unique_constraint_error_def)
  have h4: "create_fault (quiet_io 7000) = None"
    by (simp add: quiet_io_def)
  show ?thesis
    using h1 h2 h3 h4
      C2_duplicate_is_skipped [OF h1 h2 h3 h4, of series_s1 zero_counters]
    by (simp add: zero_counters_def)
qed

text \<open>
  The same observation through two whole runs of the MangaUpdates path: the first run
  creates the event and sets the watermark of a series that had none, the second run
  finds the key stored, counts one skipped item and no error, and the table still holds
  the one row.
\<close>

lemmas feed_eval =
  processFeedIngest_def checkQueueHealth_def createIngestRun_def Let_def
  run_source_def ingestMangaUpdatesReleases_def completeIngestRun_def mu_world_def
  mu_env_def mu_env2_def paused_env_def mu_job_def recent_releases_def release_r1_def series_s1_def
  ingest_release_def record_event_def create_event_def shouldUpdate_def update_watermark_def update_row_def
  greatest_update_def coalesce_epoch_def quiet_io_def zero_counters_def truthy_message_def
  event_key_def prisma_unique_violation_def on_item_error_def is_unique_constraint_error_def
  event_e1_def

lemma first_run_creates_event:
  "map_sum id res_counters (fst (processFeedIngest mu_env mu_job mu_world)) =
     Inr \<lparr> events_fetched = 1, events_created = 1, events_skipped = 0,
            series_updated = 1, errors = 0, rate_limit_hits = 0 \<rparr>
   \<and> event_tbl (snd (processFeedIngest mu_env mu_job mu_world)) = [event_e1]
   \<and> map last_chapter_released_at (series_tbl (snd (processFeedIngest mu_env mu_job mu_world))) = [Some 5000]"
  by (simp add: feed_eval)

lemma second_run_skips_duplicate:
  "map_sum id res_counters
     (fst (processFeedIngest mu_env2 mu_job (snd (processFeedIngest mu_env mu_job mu_world)))) =
     Inr \<lparr> events_fetched = 1, events_created = 0, events_skipped = 1,
            series_updated = 0, errors = 0, rate_limit_hits = 0 \<rparr>
   \<and> event_tbl (snd (processFeedIngest mu_env2 mu_job (snd (processFeedIngest mu_env mu_job mu_world)))) = [event_e1]"
  by (simp add: feed_eval)

text \<open>
  Claim C2 as stated fails where it says the duplicate is told from other failures by
  the failure class. A uniqueness violation (class \<^verbatim>\<open>P2002\<close>) whose message lacks the
  text is counted as an error, and a failure of another class (\<^verbatim>\<open>P1001\<close>, database
  unreachable) whose message contains the text is counted as skipped.
\<close>

theorem C2_counterexample:
  "on_item_error (ErrorObj ''P2002'' ''duplicate key value violates unique constraint'') zero_counters =
     zero_counters\<lparr> errors := 1 \<rparr> \<and>
   on_item_error (ErrorObj ''P1001'' ''Unique constraint check skipped: database unreachable'') zero_counters =
     zero_counters\<lparr> events_skipped := 1 \<rparr>"
  by (simp add: on_item_error_def is_unique_constraint_error_def zero_counters_def)

section \<open>Properties of the watermark under concurrent advances\<close>

subsection \<open>The watermark only grows, and a soft-deleted row is left alone\<close>

lemma wm_le_refl: "wm_le a a"
  by (cases a) simp_all

lemma wm_le_trans: "wm_le a b \<Longrightarrow> wm_le b c \<Longrightarrow> wm_le a c"
  by (cases a; cases b; cases c) simp_all

lemma update_row_grows:
  "wm_le (last_chapter_released_at r) (last_chapter_released_at (update_row sid t r))"
  by (cases "last_chapter_released_at r")
     (simp_all add: update_row_def greatest_update_def coalesce_epoch_def)

lemma step_grows: "wm_le (watermark st) (watermark (reconciler_step ts s st))"
  by (cases s)
     (simp_all add: reconciler_step_def watermark_def wm_le_refl update_row_grows
        split: option.splits)

lemma run_grows: "wm_le (watermark st) (watermark (run_schedule ts sched st))"
proof (induction sched arbitrary: st)
  case Nil
  show ?case by (simp add: wm_le_refl)
next
  case (Cons s sched)
  from step_grows [of st ts s] Cons [of "reconciler_step ts s st"]
  show ?case by (auto intro: wm_le_trans)
qed

lemma run_schedule_append:
  "run_schedule ts (xs @ ys) st = run_schedule ts ys (run_schedule ts xs st)"
  by (induction xs arbitrary: st) simp_all

lemma run_prefix_grows:
  "wm_le (watermark (run_schedule ts (take n sched) st)) (watermark (run_schedule ts sched st))"
proof -
  have "run_schedule ts sched st =
      run_schedule ts (drop n sched) (run_schedule ts (take n sched) st)"
    by (simp flip: run_schedule_append)
  then show ?thesis by (simp add: run_grows)
qed

lemma step_deleted:
  "deleted_at (rc_row st) \<noteq> None \<Longrightarrow> rc_row (reconciler_step ts s st) = rc_row st"
  by (cases s) (auto simp add: reconciler_step_def update_row_def split: option.splits)

lemma run_deleted:
  "deleted_at (rc_row st) \<noteq> None \<Longrightarrow> rc_row (run_schedule ts sched st) = rc_row st"
  by (induction sched arbitrary: st) (simp_all add: step_deleted)

subsection \<open>The value after an interleaving\<close>

text \<open>
  A snapshot is never ahead of the row, so whenever the test against the snapshot skips
  the statement, the statement would have changed nothing: in both cases an advance
  leaves the maximum of the row's value and the candidate.
\<close>

lemma advance_effect:
  assumes live: "deleted_at (rc_row st) = None"
    and behind: "snaps_behind st"
    and seen: "i \<in> set (map fst (rc_snaps st))"
  shows "watermark (reconciler_step ts (Advance i) st) =
           Some (max (coalesce_epoch (watermark st)) (ts i))"
proof -
  from seen obtain snap where look: "map_of (rc_snaps st) i = Some snap"
    by (metis map_of_eq_None_iff not_Some_eq set_map)
  then have "(i, snap) \<in> set (rc_snaps st)"
    by (rule map_of_SomeD)
  with behind have le: "wm_le snap (watermark st)"
    by (auto simp add: snaps_behind_def)
  show ?thesis
  proof (cases "shouldUpdate snap (ts i)")
    case True
    with look live show ?thesis
      by (simp add: reconciler_step_def watermark_def update_row_def greatest_update_def)
  next
    case False
    then obtain l where l: "snap = Some l" "ts i \<le> l"
      by (cases snap) (auto simp add: shouldUpdate_def)
    with le obtain c where c: "watermark st = Some c" "l \<le> c"
      by (cases "watermark st") auto
    with l look False show ?thesis
      by (simp add: reconciler_step_def coalesce_epoch_def)
  qed
qed

lemma step_keeps_behind:
  "snaps_behind st \<Longrightarrow> snaps_behind (reconciler_step ts s st)"
proof (cases s)
  case (Snapshot i)
  assume "snaps_behind st"
  with Snapshot show ?thesis
    by (simp add: snaps_behind_def reconciler_step_def watermark_def wm_le_refl)
next
  case (Advance i)
  assume b: "snaps_behind st"
  have same: "rc_snaps (reconciler_step ts s st) = rc_snaps st"
    using Advance by (simp add: reconciler_step_def split: option.splits)
  from b step_grows [of st ts s] show ?thesis
    unfolding snaps_behind_def same by (blast intro: wm_le_trans)
qed

lemma step_keeps_live:
  "deleted_at (rc_row (reconciler_step ts s st)) = deleted_at (rc_row st)"
  by (cases s)
     (simp_all add: reconciler_step_def update_row_def greatest_update_def split: option.splits)

lemma Max_absorb:
  "Max (set (max a t # xs)) = Max (set (a # t # xs))" for a :: int
  by (cases "xs = []") (simp_all add: max.assoc)

lemma run_value:
  assumes "deleted_at (rc_row st) = None"
    and "snaps_behind st"
    and "in_program_order (map fst (rc_snaps st)) sched"
  shows "watermark (run_schedule ts sched st) =
           (if advanced sched = [] then watermark st
            else Some (Max (set (coalesce_epoch (watermark st) # map ts (advanced sched)))))"
  using assms
proof (induction sched arbitrary: st)
  case Nil
  then show ?case by simp
next
  case (Cons s sched)
  let ?st' = "reconciler_step ts s st"
  have live': "deleted_at (rc_row ?st') = None"
    using Cons.prems(1) by (simp add: step_keeps_live)
  have behind': "snaps_behind ?st'"
    using Cons.prems(2) by (rule step_keeps_behind)
  show ?case
  proof (cases s)
    case (Snapshot i)
    then have po: "in_program_order (map fst (rc_snaps ?st')) sched"
      using Cons.prems(3) by (simp add: reconciler_step_def)
    have wm: "watermark ?st' = watermark st"
      using Snapshot by (simp add: reconciler_step_def watermark_def)
    from Cons.IH [OF live' behind' po] Snapshot wm show ?thesis by simp
  next
    case (Advance i)
    then have seen: "i \<in> set (map fst (rc_snaps st))"
      and rest: "in_program_order (map fst (rc_snaps st)) sched"
      using Cons.prems(3) by simp_all
    have same: "rc_snaps ?st' = rc_snaps st"
      using Advance by (simp add: reconciler_step_def split: option.splits)
    have po: "in_program_order (map fst (rc_snaps ?st')) sched"
      using rest by (simp add: same)
    have wm: "watermark ?st' = Some (max (coalesce_epoch (watermark st)) (ts i))"
      using advance_effect [OF Cons.prems(1,2) seen] Advance by simp
    have co: "coalesce_epoch (watermark ?st') = max (coalesce_epoch (watermark st)) (ts i)"
      by (simp add: wm coalesce_epoch_def)
    have "watermark (run_schedule ts (s # sched) st) =
        Some (Max (set (max (coalesce_epoch (watermark st)) (ts i) # map ts (advanced sched))))"
      using Cons.IH [OF live' behind' po] wm co by simp
    also have "\<dots> = Some (Max (set (coalesce_epoch (watermark st) # ts i # map ts (advanced sched))))"
      by (simp only: Max_absorb)
    finally show ?thesis
      using Advance by simp
  qed
qed

text \<open>
  Claim C1. Take any interleaving of reads and advances on one series row in which every
  caller reads before it advances. If the row is not soft-deleted, the watermark at the
  end is the maximum of the prior value (the epoch when there was none) and the candidate
  timestamps of all advances that ran. If the row is soft-deleted, it is unchanged.
  Along the interleaving the watermark never decreases. Each advance is the single
  \<^verbatim>\<open>UPDATE ... GREATEST\<close> step on the current row, not a write of a value computed from
  the earlier read.
\<close>

theorem C1_monotonic_watermark:
  assumes "in_program_order [] sched"
  shows "(deleted_at r = None \<longrightarrow>
            watermark (run_schedule ts sched (start r)) =
              (if advanced sched = [] then last_chapter_released_at r
               else Some (Max (set (coalesce_epoch (last_chapter_released_at r) #
                                     map ts (advanced sched))))))
       \<and> (deleted_at r \<noteq> None \<longrightarrow> rc_row (run_schedule ts sched (start r)) = r)
       \<and> (\<forall>m n. m \<le> n \<longrightarrow>
            wm_le (watermark (run_schedule ts (take m sched) (start r)))
                  (watermark (run_schedule ts (take n sched) (start r))))"
proof (intro conjI impI allI)
  assume "deleted_at r = None"
  then show "watermark (run_schedule ts sched (start r)) =
      (if advanced sched = [] then last_chapter_released_at r
       else Some (Max (set (coalesce_epoch (last_chapter_released_at r) #
                             map ts (advanced sched)))))"
    using run_value [of "start r" sched ts] assms
    by (simp add: start_def snaps_behind_def watermark_def)
next
  assume "deleted_at r \<noteq> None"
  then show "rc_row (run_schedule ts sched (start r)) = r"
    using run_deleted [of "start r" ts sched] by (simp add: start_def)
next
  fix m n :: nat
  assume "m \<le> n"
  then have "take m sched = take m (take n sched)"
    by (simp add: min_def)
  then show "wm_le (watermark (run_schedule ts (take m sched) (start r)))
                   (watermark (run_schedule ts (take n sched) (start r)))"
    using run_prefix_grows [of ts m "take n sched" "start r"] by simp
qed

theorem C1_monotonic_watermark_witness:
  "in_program_order [] two_callers \<and> deleted_at series_s2 = None \<and>
   advanced two_callers = [1, 0] \<and>
   watermark (run_schedule two_candidates two_callers (start series_s2)) = Some 9000 \<and>
   deleted_at (series_s2\<lparr> deleted_at := Some 100 \<rparr>) \<noteq> None \<and>
   rc_row (run_schedule two_candidates two_callers (start (series_s2\<lparr> deleted_at := Some 100 \<rparr>))) =
     series_s2\<lparr> deleted_at := Some 100 \<rparr> \<and>
   wm_le (watermark (run_schedule two_candidates (take 2 two_callers) (start series_s2)))
         (watermark (run_schedule two_candidates (take 3 two_callers) (start series_s2)))"
proof -
  have po: "in_program_order [] two_callers"
    by (simp add: two_callers_def)
  have adv: "advanced two_callers = [1, 0]"
    by (simp add: two_callers_def)
  have live: "deleted_at series_s2 = None"
    by (simp add: series_s2_def)
  have mx: "Max (set (coalesce_epoch (last_chapter_released_at series_s2) #
                    map two_candidates [1, 0])) = 9000"
    by (simp add: series_s2_def coalesce_epoch_def two_candidates_def)
  from C1_monotonic_watermark [OF po, of series_s2 two_candidates]
       C1_monotonic_watermark [OF po, of "series_s2\<lparr> deleted_at := Some 100 \<rparr>" two_candidates]
  show ?thesis
    using po adv live mx by simp
qed

section \<open>Properties of the on-demand sync\<close>

subsection \<open>Counting adapter fetches\<close>

lemma scrapes_emit:
  "scrapes (emit x st) = scrapes st + (if is_scrape x then 1 else 0)"
  by (simp add: scrapes_def emit_def)

lemma resolve_source_frame:
  assumes "resolve_source e sid series st = (r, st1)"
  shows "st_trace st1 = st_trace st \<and> sd_chapters (st_db st1) = sd_chapters (st_db st)
       \<and> sd_chapter_sources (st_db st1) = sd_chapter_sources (st_db st)
       \<and> sd_locks (st_db st1) = sd_locks (st_db st)"
  using assms
  by (auto simp add: resolve_source_def upsert_mangadex_source_def Let_def
      split: option.splits if_splits)

lemma fetch_and_sync_scrapes:
  "scrapes (snd (fetch_and_sync e sid src st)) \<le> scrapes st + 1"
  by (auto simp add: fetch_and_sync_def Let_def scrapes_def emit_def is_scrape_def
      split: option.splits sum.splits)

lemma sync_body_scrapes:
  "scrapes (snd (sync_body e sid st)) \<le> scrapes st + 1"
proof -
  have "\<And>r st1 src. resolve_source e sid r st = (Inr (Some src), st1) \<Longrightarrow>
      scrapes (snd (fetch_and_sync e sid src st1)) \<le> scrapes st + 1"
  proof -
    fix r st1 src
    assume "resolve_source e sid r st = (Inr (Some src), st1)"
    then have "scrapes st1 = scrapes st"
      using resolve_source_frame by (fastforce simp add: scrapes_def)
    with fetch_and_sync_scrapes [of e sid src st1]
    show "scrapes (snd (fetch_and_sync e sid src st1)) \<le> scrapes st + 1" by simp
  qed
  moreover have "\<And>r x st1. resolve_source e sid r st = (x, st1) \<Longrightarrow> scrapes st1 = scrapes st"
    using resolve_source_frame by (fastforce simp add: scrapes_def)
  ultimately show ?thesis
    by (auto simp add: sync_body_def Let_def split: option.splits sum.splits prod.splits)
qed

lemma sync_body_already_synced:
  assumes "already_synced sid (st_db st)"
  shows "st_trace (snd (sync_body e sid st)) = st_trace st"
proof -
  have tr: "\<And>r x st1. resolve_source e sid r st = (x, st1) \<Longrightarrow> st_trace st1 = st_trace st"
    using resolve_source_frame by fastforce
  have ti: "\<And>r x st1. resolve_source e sid r st = (x, st1) \<Longrightarrow>
      titles_all_dummy sid (st_db st1) = titles_all_dummy sid (st_db st)"
    using resolve_source_frame by (fastforce simp add: titles_all_dummy_def)
  from assms tr ti show ?thesis
    by (auto simp add: sync_body_def Let_def already_synced_def is_dummy_def
        hasOrphanedChapters_def split: option.splits sum.splits prod.splits)
qed

lemma acquire_frame:
  assumes "acquire e k st = (r, st1)"
  shows "st_trace st1 = st_trace st @ [LockQuery k]
       \<and> sd_chapters (st_db st1) = sd_chapters (st_db st)
       \<and> sd_chapter_sources (st_db st1) = sd_chapter_sources (st_db st)"
  using assms
  by (auto simp add: acquire_def Let_def emit_def pg_try_advisory_lock_def
      split: option.splits if_splits)

lemma already_synced_cong:
  "sd_chapters db' = sd_chapters db \<Longrightarrow> sd_chapter_sources db' = sd_chapter_sources db \<Longrightarrow>
   already_synced sid db' = already_synced sid db"
  by (simp add: already_synced_def is_dummy_def hasOrphanedChapters_def chapter_count_def
      chapter_source_count_def titles_all_dummy_def)

lemma release_lock_scrapes: "scrapes (release_lock e sid k st) = scrapes st"
  by (simp add: release_lock_def Let_def scrapes_def emit_def is_scrape_def split: option.splits)

lemma locked_section_scrapes:
  "scrapes (snd (locked_section e sid k st)) \<le> scrapes st + 1"
  using sync_body_scrapes [of e sid st]
  by (cases "sync_body e sid st") (simp add: locked_section_def release_lock_scrapes)

lemma locked_section_already_synced:
  "already_synced sid (st_db st) \<Longrightarrow> scrapes (snd (locked_section e sid k st)) = scrapes st"
proof -
  assume "already_synced sid (st_db st)"
  then have "scrapes (snd (sync_body e sid st)) = scrapes st"
    using sync_body_already_synced [of sid st e] by (simp add: scrapes_def)
  then show ?thesis
    by (cases "sync_body e sid st") (simp add: locked_section_def release_lock_scrapes)
qed

lemma sync_attempt_scrapes:
  "scrapes (snd (sync_attempt e sid k st)) =
     (case acquire e k st of
        (Inr True, st1) \<Rightarrow> scrapes (snd (locked_section e sid k st1))
      | other \<Rightarrow> scrapes st)"
proof (cases "acquire e k st")
  case (Pair r st1)
  then have "scrapes st1 = scrapes st"
    using acquire_frame [OF Pair] by (simp add: scrapes_def is_scrape_def)
  with Pair show ?thesis
    by (auto simp add: sync_attempt_def scrapes_emit is_scrape_def split: sum.splits bool.splits)
qed

lemma performOnDemandSync_scrapes:
  "scrapes (snd (performOnDemandSync e sid st)) =
     (case lock_id sid of
        None \<Rightarrow> scrapes st
      | Some k \<Rightarrow> scrapes (snd (sync_attempt e sid k st)))"
  by (auto simp add: performOnDemandSync_def scrapes_emit is_scrape_def
      split: option.splits sum.splits prod.splits)

subsection \<open>Evaluating concrete calls\<close>

lemma lock_id_sid1: "lock_id sid1 = Some 523934766"
  by (simp add: lock_id_def sid1_def parseInt16_def hex_digit_def is_js_space_def Let_def)

lemmas sync_eval =
  performOnDemandSync_def sync_attempt_def acquire_def locked_section_def release_lock_def
  sync_body_def fetch_and_sync_def resolve_source_def pick_source_def emit_def
  pg_try_advisory_lock_def pg_advisory_unlock_def lock_refused_def
  chapter_count_def chapter_source_count_def titles_all_dummy_def dummyTitles_def
  upsert_mangadex_source_def Let_def
  db_cold_def db_synced_def db_unbound_def fresh_def env_ok_def env_empty_def env_failing_def
  series_one_def source_one_def scrapes_def is_scrape_def

lemma cold_call:
  "performOnDemandSync env_ok sid1 (fresh db_cold) =
     (None, \<lparr> st_db = db_cold,
               st_trace = [LockQuery 523934766, Scrape ''mangadex'' ''md-1'',
                           SyncChaptersCall sid1 ''md-1'' ''mangadex'' 2,
                           UnlockQuery 523934766] \<rparr>)"
  by (simp add: lock_id_sid1 sync_eval)

lemma synced_call:
  "performOnDemandSync env_ok sid1 (fresh db_synced) =
     (None, \<lparr> st_db = db_synced,
               st_trace = [LockQuery 523934766, UnlockQuery 523934766] \<rparr>)"
  by (simp add: lock_id_sid1 sync_eval)

subsection \<open>The re-check under the lock\<close>

text \<open>
  Claim C8. Whatever the collaborators answer, a call on a series that already has a
  chapter, is not the three-placeholder-title seed pattern and is not orphaned (its
  chapters have at least one per-source detail row) performs no adapter fetch. A call
  that does fetch has acquired the lock first and found the series without chapters,
  or matching the seed pattern, or orphaned.
\<close>

theorem C8_recheck_decides_fetch:
  "(already_synced sid (st_db st) \<longrightarrow>
      scrapes (snd (performOnDemandSync e sid st)) = scrapes st)
   \<and> (scrapes (snd (performOnDemandSync e sid st)) \<noteq> scrapes st \<longrightarrow>
        (\<exists>k. lock_id sid = Some k \<and> fst (acquire e k st) = Inr True)
        \<and> (chapter_count sid (st_db st) = 0 \<or> is_dummy sid (st_db st)
             \<or> hasOrphanedChapters sid (st_db st)))"
proof -
  have skip: "already_synced sid (st_db st) \<Longrightarrow>
      scrapes (snd (performOnDemandSync e sid st)) = scrapes st"
  proof -
    assume a: "already_synced sid (st_db st)"
    show ?thesis
    proof (cases "lock_id sid")
      case None
      then show ?thesis by (simp add: performOnDemandSync_scrapes)
    next
      case (Some k)
      obtain r st1 where acq: "acquire e k st = (r, st1)" by fastforce
      from acquire_frame [OF acq] a have a1: "already_synced sid (st_db st1)"
        using already_synced_cong by blast
      have s1: "scrapes st1 = scrapes st"
        using acquire_frame [OF acq] by (simp add: scrapes_def is_scrape_def)
      from Some acq a1 s1 show ?thesis
        by (auto simp add: performOnDemandSync_scrapes sync_attempt_scrapes
            locked_section_already_synced split: sum.splits bool.splits)
    qed
  qed
  have acquired: "scrapes (snd (performOnDemandSync e sid st)) \<noteq> scrapes st \<Longrightarrow>
      \<exists>k. lock_id sid = Some k \<and> fst (acquire e k st) = Inr True"
    by (cases "lock_id sid")
       (auto simp add: performOnDemandSync_scrapes sync_attempt_scrapes
          split: sum.splits bool.splits prod.splits)
  from skip acquired show ?thesis
    by (auto simp add: already_synced_def)
qed

theorem C8_recheck_decides_fetch_witness:
  "already_synced sid1 (st_db (fresh db_synced)) \<and>
   scrapes (snd (performOnDemandSync env_ok sid1 (fresh db_synced))) = scrapes (fresh db_synced) \<and>
   scrapes (snd (performOnDemandSync env_ok sid1 (fresh db_cold))) \<noteq> scrapes (fresh db_cold) \<and>
   lock_id sid1 = Some 523934766 \<and>
   fst (acquire env_ok 523934766 (fresh db_cold)) = Inr True \<and>
   chapter_count sid1 (st_db (fresh db_cold)) = 0"
proof -
  have a: "already_synced sid1 (st_db (fresh db_synced))"
    by (simp add: already_synced_def is_dummy_def hasOrphanedChapters_def sync_eval)
  have b: "scrapes (snd (performOnDemandSync env_ok sid1 (fresh db_cold))) \<noteq> scrapes (fresh db_cold)"
    by (simp add: cold_call) (simp add: sync_eval)
  have c: "fst (acquire env_ok 523934766 (fresh db_cold)) = Inr True"
    by (simp add: sync_eval)
  have d: "chapter_count sid1 (st_db (fresh db_cold)) = 0"
    by (simp add: sync_eval)
  from C8_recheck_decides_fetch [of sid1 "fresh db_synced" env_ok]
       C8_recheck_decides_fetch [of sid1 "fresh db_cold" env_ok]
  show ?thesis
    using a b c d lock_id_sid1 by simp
qed

subsection \<open>Failures stay inside the call\<close>

lemma release_lock_trace:
  "st_trace (release_lock e sid k st) =
     st_trace st @ UnlockQuery k #
       (case unlock_fault e of
          None \<Rightarrow> []
        | Some err \<Rightarrow> [ConsoleError (''[Sync] Failed to release lock for '' @ sid @ '':'') (Some err)])"
  by (simp add: release_lock_def Let_def emit_def split: option.splits)

lemma release_lock_frees:
  "unlock_fault e = None \<Longrightarrow> k \<notin> set (sd_locks (st_db (release_lock e sid k st)))"
  by (simp add: release_lock_def Let_def emit_def pg_advisory_unlock_def)

lemma performOnDemandSync_acquired:
  assumes "lock_id sid = Some k" and "acquire e k st = (Inr True, st1)"
  shows "st_db (snd (performOnDemandSync e sid st)) = st_db (snd (locked_section e sid k st1))
       \<and> (\<exists>more. st_trace (snd (performOnDemandSync e sid st)) =
                    st_trace (snd (locked_section e sid k st1)) @ more)"
  using assms
  by (cases "locked_section e sid k st1"; cases "fst (locked_section e sid k st1)")
     (auto simp add: performOnDemandSync_def sync_attempt_def emit_def)

text \<open>
  Claim C7. For every series id, every database state and every behaviour of the
  collaborators, \<open>performOnDemandSync\<close> throws nothing to its caller. An error raised
  by the lock query, the re-check queries, the upsert, the scraper or \<^verbatim>\<open>syncChapters\<close>
  ends as the last line of the log, with the series id. Once the lock is acquired the
  unlock query is issued whether the body returned or raised: when it succeeds the lock
  is no longer held, and when it fails the failure is logged and nothing is thrown.
\<close>

theorem C7_sync_never_propagates:
  "fst (performOnDemandSync e sid st) = None
   \<and> (\<forall>k err. lock_id sid = Some k \<longrightarrow> fst (sync_attempt e sid k st) = Inl err \<longrightarrow>
        last (st_trace (snd (performOnDemandSync e sid st))) =
          ConsoleError (''[Sync] On-demand sync failed for '' @ sid @ '':'') (Some err))
   \<and> (\<forall>k. lock_id sid = Some k \<longrightarrow> fst (acquire e k st) = Inr True \<longrightarrow>
        UnlockQuery k \<in> set (st_trace (snd (performOnDemandSync e sid st)))
        \<and> (unlock_fault e = None \<longrightarrow>
             k \<notin> set (sd_locks (st_db (snd (performOnDemandSync e sid st)))))
        \<and> (\<forall>err. unlock_fault e = Some err \<longrightarrow>
             ConsoleError (''[Sync] Failed to release lock for '' @ sid @ '':'') (Some err)
               \<in> set (st_trace (snd (performOnDemandSync e sid st)))))"
proof (intro conjI allI impI)
  show "fst (performOnDemandSync e sid st) = None"
    by (simp add: performOnDemandSync_def split: option.splits sum.splits prod.splits)
next
  fix k err
  assume "lock_id sid = Some k" and "fst (sync_attempt e sid k st) = Inl err"
  then show "last (st_trace (snd (performOnDemandSync e sid st))) =
      ConsoleError (''[Sync] On-demand sync failed for '' @ sid @ '':'') (Some err)"
    by (cases "sync_attempt e sid k st") (simp add: performOnDemandSync_def emit_def)
next
  fix k
  assume k: "lock_id sid = Some k" and acq: "fst (acquire e k st) = Inr True"
  obtain st1 where st1: "acquire e k st = (Inr True, st1)"
    using acq by (cases "acquire e k st") simp
  obtain r st2 where body: "sync_body e sid st1 = (r, st2)" by fastforce
  have sec: "snd (locked_section e sid k st1) = release_lock e sid k st2"
    using body by (simp add: locked_section_def)
  from performOnDemandSync_acquired [OF k st1] obtain more where
    db: "st_db (snd (performOnDemandSync e sid st)) = st_db (release_lock e sid k st2)" and
    tr: "st_trace (snd (performOnDemandSync e sid st)) = st_trace (release_lock e sid k st2) @ more"
    by (auto simp add: sec)
  show "UnlockQuery k \<in> set (st_trace (snd (performOnDemandSync e sid st)))"
    by (simp add: tr release_lock_trace)
  show "k \<notin> set (sd_locks (st_db (snd (performOnDemandSync e sid st))))"
    if "unlock_fault e = None"
    using that by (simp add: db release_lock_frees)
  show "ConsoleError (''[Sync] Failed to release lock for '' @ sid @ '':'') (Some err)
      \<in> set (st_trace (snd (performOnDemandSync e sid st)))"
    if "unlock_fault e = Some err" for err
    using that by (simp add: tr release_lock_trace)
qed

theorem C7_sync_never_propagates_witness:
  "lock_id sid1 = Some 523934766 \<and>
   fst (sync_attempt env_failing sid1 523934766 (fresh db_cold)) = Inl scrape_error \<and>
   fst (acquire env_failing 523934766 (fresh db_cold)) = Inr True \<and>
   unlock_fault env_failing = Some unlock_error \<and>
   fst (performOnDemandSync env_failing sid1 (fresh db_cold)) = None \<and>
   st_trace (snd (performOnDemandSync env_failing sid1 (fresh db_cold))) =
     [LockQuery 523934766, Scrape ''mangadex'' ''md-1'', UnlockQuery 523934766,
      ConsoleError (''[Sync] Failed to release lock for '' @ sid1 @ '':'') (Some unlock_error),
      ConsoleError (''[Sync] On-demand sync failed for '' @ sid1 @ '':'') (Some scrape_error)] \<and>
   fst (acquire env_ok 523934766 (fresh db_cold)) = Inr True \<and>
   unlock_fault env_ok = None \<and>
   523934766 \<notin> set (sd_locks (st_db (snd (performOnDemandSync env_ok sid1 (fresh db_cold)))))"
proof -
  have a: "fst (sync_attempt env_failing sid1 523934766 (fresh db_cold)) = Inl scrape_error"
    by (simp add: sync_eval)
  have b: "fst (acquire env_failing 523934766 (fresh db_cold)) = Inr True"
    by (simp add: sync_eval)
  have c: "unlock_fault env_failing = Some unlock_error"
    by (simp add: sync_eval)
  have d: "st_trace (snd (performOnDemandSync env_failing sid1 (fresh db_cold))) =
     [LockQuery 523934766, Scrape ''mangadex'' ''md-1'', UnlockQuery 523934766,
      ConsoleError (''[Sync] Failed to release lock for '' @ sid1 @ '':'') (Some unlock_error),
      ConsoleError (''[Sync] On-demand sync failed for '' @ sid1 @ '':'') (Some scrape_error)]"
    by (simp add: lock_id_sid1 sync_eval)
  have e: "fst (acquire env_ok 523934766 (fresh db_cold)) = Inr True"
    by (simp add: sync_eval)
  have f: "unlock_fault env_ok = None"
    by (simp add: sync_eval)
  from C7_sync_never_propagates [of env_failing sid1 "fresh db_cold"]
       C7_sync_never_propagates [of env_ok sid1 "fresh db_cold"]
  show ?thesis
    using lock_id_sid1 a b c d e f by simp
qed

subsection \<open>Two calls and one lock\<close>

text \<open>A call makes at most one adapter fetch.\<close>

lemma call_fetches_at_most_once:
  "scrapes (snd (performOnDemandSync e sid st)) \<le> scrapes st + 1"
proof (cases "lock_id sid")
  case None
  then show ?thesis by (simp add: performOnDemandSync_scrapes)
next
  case (Some k)
  obtain r st1 where acq: "acquire e k st = (r, st1)" by fastforce
  have s1: "scrapes st1 = scrapes st"
    using acquire_frame [OF acq] by (simp add: scrapes_def is_scrape_def)
  from Some acq s1 locked_section_scrapes [of e sid k st1] show ?thesis
    by (auto simp add: performOnDemandSync_scrapes sync_attempt_scrapes
        split: sum.splits bool.splits)
qed

text \<open>The locked section fetches exactly once when its queries answer, the series is
  found, a source with a registered scraper resolves and the re-check asks for a sync;
  and a call that finds the key held skips.\<close>

lemma resolve_source_cong:
  assumes "sd_sources (st_db st') = sd_sources (st_db st)"
  shows "fst (resolve_source e sid series st') = fst (resolve_source e sid series st)"
  using assms
  by (simp add: resolve_source_def upsert_mangadex_source_def Let_def
      split: option.splits prod.splits)

lemma fetch_and_sync_one_scrape:
  assumes "scrapers e (ss_source_name src) = Some scr"
  shows "scrapes (snd (fetch_and_sync e sid src st)) = scrapes st + 1"
  using assms
  by (simp add: fetch_and_sync_def Let_def scrapes_def emit_def is_scrape_def
      split: sum.splits)

lemma sync_body_one_scrape:
  assumes reads: "counts_fault e = None" "series_fault e = None" "titles_fault e = None"
    and series: "find (\<lambda>s. series_id s = sid) (sd_series (st_db st)) = Some series"
    and source: "fst (resolve_source e sid series st) = Inr (Some src)"
    and scraper: "scrapers e (ss_source_name src) = Some scr"
    and needs: "\<not> already_synced sid (st_db st)"
  shows "scrapes (snd (sync_body e sid st)) = scrapes st + 1"
proof -
  obtain st1 where r: "resolve_source e sid series st = (Inr (Some src), st1)"
    using source by (cases "resolve_source e sid series st") simp
  from resolve_source_frame [OF r] have
    tr: "st_trace st1 = st_trace st" and ch: "sd_chapters (st_db st1) = sd_chapters (st_db st)"
    by simp_all
  have ti: "titles_all_dummy sid (st_db st1) = titles_all_dummy sid (st_db st)"
    by (simp add: titles_all_dummy_def ch)
  have s1: "scrapes st1 = scrapes st"
    by (simp add: scrapes_def tr)
  have "sync_body e sid st = fetch_and_sync e sid src st1"
    using reads series r needs ti
    by (auto simp add: sync_body_def Let_def already_synced_def is_dummy_def
        hasOrphanedChapters_def)
  then show ?thesis
    using fetch_and_sync_one_scrape [OF scraper, of sid st1] s1 by simp
qed

lemma acquire_free:
  assumes "lock_fault e = None" and "k \<notin> set (sd_locks (st_db st))"
  shows "acquire e k st =
           (Inr True, \<lparr> st_db = (st_db st)\<lparr> sd_locks := k # sd_locks (st_db st) \<rparr>,
                        st_trace = st_trace st @ [LockQuery k] \<rparr>)"
  using assms
  by (simp add: acquire_def Let_def emit_def pg_try_advisory_lock_def lock_refused_def)

lemma held_lock_skips:
  assumes "lock_id sid = Some k" and "lock_fault e = None" and "k \<in> set (sd_locks (st_db st))"
  shows "performOnDemandSync e sid st =
        (None, st\<lparr> st_trace := st_trace st @
                 [LockQuery k,
                  ConsoleLog (''[Sync] Series '' @ sid @
                    '' is already being synced or lock failed, skipping.'')] \<rparr>)"
  using assms
  by (simp add: performOnDemandSync_def sync_attempt_def acquire_def Let_def emit_def
      pg_try_advisory_lock_def lock_refused_def)

text \<open>
  Claim C4, as amended. Two callers \<open>A\<close> and \<open>B\<close> sync the same series, whose lock key
  is free. \<open>A\<close>'s lock query comes first and \<open>B\<close>'s whole call falls while \<open>A\<close> holds
  the lock. Then \<open>A\<close> acquires the lock; \<open>B\<close> is refused and returns at once, throwing
  nothing, leaving the database as it was and adding only its lock query and the skip
  message to the log, so it makes no fetch; the lock is still held when \<open>A\<close> runs its
  locked section. If \<open>A\<close>'s re-check queries answer, the series exists, a source with a
  registered scraper is bound to it (or is created from its MangaDex id) and the re-check
  finds the series in need of syncing, \<open>A\<close> makes exactly one adapter fetch: of the two
  calls exactly one fetches.
\<close>

theorem C4_contended_calls_fetch_once:
  assumes key: "lock_id sid = Some k"
    and free: "k \<notin> set (sd_locks (st_db st))"
    and lockA: "lock_fault eA = None" and lockB: "lock_fault eB = None"
    and reads: "counts_fault eA = None" "series_fault eA = None" "titles_fault eA = None"
    and series: "find (\<lambda>s. series_id s = sid) (sd_series (st_db st)) = Some series"
    and source: "fst (resolve_source eA sid series st) = Inr (Some src)"
    and scraper: "scrapers eA (ss_source_name src) = Some scr"
    and needs: "\<not> already_synced sid (st_db st)"
  shows "fst (acquire eA k st) = Inr True
       \<and> performOnDemandSync eB sid (snd (acquire eA k st)) =
           (None, (snd (acquire eA k st))
                    \<lparr> st_trace := st_trace (snd (acquire eA k st)) @
                        [LockQuery k,
                         ConsoleLog (''[Sync] Series '' @ sid @
                           '' is already being synced or lock failed, skipping.'')] \<rparr>)
       \<and> scrapes (snd (performOnDemandSync eB sid (snd (acquire eA k st)))) = scrapes st
       \<and> scrapes (snd (locked_section eA sid k
             (snd (performOnDemandSync eB sid (snd (acquire eA k st)))))) = scrapes st + 1
       \<and> k \<in> set (sd_locks (st_db (snd (performOnDemandSync eB sid (snd (acquire eA k st))))))"
proof -
  let ?stA = "snd (acquire eA k st)"
  let ?stB = "snd (performOnDemandSync eB sid ?stA)"
  have acq: "acquire eA k st =
      (Inr True, \<lparr> st_db = (st_db st)\<lparr> sd_locks := k # sd_locks (st_db st) \<rparr>,
                   st_trace = st_trace st @ [LockQuery k] \<rparr>)"
    using lockA free by (rule acquire_free)
  have held: "k \<in> set (sd_locks (st_db ?stA))"
    by (simp add: acq)
  have skip: "performOnDemandSync eB sid ?stA =
      (None, ?stA\<lparr> st_trace := st_trace ?stA @
                 [LockQuery k,
                  ConsoleLog (''[Sync] Series '' @ sid @
                    '' is already being synced or lock failed, skipping.'')] \<rparr>)"
    using key lockB held by (rule held_lock_skips)
  have dbA: "st_db ?stA = (st_db st)\<lparr> sd_locks := k # sd_locks (st_db st) \<rparr>"
    and trA: "st_trace ?stA = st_trace st @ [LockQuery k]"
    by (simp_all add: acq)
  have "st_db ?stB = st_db ?stA"
    unfolding skip by simp
  then have dbB: "st_db ?stB = (st_db st)\<lparr> sd_locks := k # sd_locks (st_db st) \<rparr>"
    by (simp only: dbA)
  have "scrapes ?stB = scrapes ?stA"
    unfolding skip by (simp add: scrapes_def is_scrape_def)
  also have "\<dots> = scrapes st"
    by (simp add: scrapes_def trA is_scrape_def)
  finally have scB: "scrapes ?stB = scrapes st" .
  have seriesB: "find (\<lambda>s. series_id s = sid) (sd_series (st_db ?stB)) = Some series"
    using series by (simp add: dbB)
  have sourceB: "fst (resolve_source eA sid series ?stB) = Inr (Some src)"
    using source resolve_source_cong [of ?stB st eA sid series] by (simp add: dbB)
  have needsB: "\<not> already_synced sid (st_db ?stB)"
    using needs already_synced_cong [of "st_db ?stB" "st_db st" sid] by (simp add: dbB)
  have body: "scrapes (snd (sync_body eA sid ?stB)) = scrapes ?stB + 1"
    using reads seriesB sourceB scraper needsB by (rule sync_body_one_scrape)
  have sec: "scrapes (snd (locked_section eA sid k ?stB)) = scrapes st + 1"
    using body scB
    by (cases "sync_body eA sid ?stB") (simp add: locked_section_def release_lock_scrapes)
  have heldB: "k \<in> set (sd_locks (st_db ?stB))"
    by (simp add: dbB)
  have "fst (acquire eA k st) = Inr True"
    by (simp add: acq)
  with skip scB sec heldB show ?thesis
    by blast
qed

theorem C4_contended_calls_fetch_once_witness:
  "lock_id sid1 = Some 523934766 \<and>
   523934766 \<notin> set (sd_locks (st_db (fresh db_cold))) \<and>
   \<not> already_synced sid1 (st_db (fresh db_cold)) \<and>
   fst (resolve_source env_ok sid1 series_one (fresh db_cold)) = Inr (Some source_one) \<and>
   fst (acquire env_ok 523934766 (fresh db_cold)) = Inr True \<and>
   scrapes (snd (performOnDemandSync env_ok sid1 (snd (acquire env_ok 523934766 (fresh db_cold))))) = 0 \<and>
   scrapes (snd (locked_section env_ok sid1 523934766
      (snd (performOnDemandSync env_ok sid1 (snd (acquire env_ok 523934766 (fresh db_cold))))))) = 1"
proof -
  have free: "523934766 \<notin> set (sd_locks (st_db (fresh db_cold)))"
    by (simp add: fresh_def db_cold_def)
  have nf: "lock_fault env_ok = None" "counts_fault env_ok = None" "series_fault env_ok = None"
    "titles_fault env_ok = None"
    by (simp_all add: env_ok_def)
  have series: "find (\<lambda>s. series_id s = sid1) (sd_series (st_db (fresh db_cold))) = Some series_one"
    by (simp add: fresh_def db_cold_def series_one_def)
  have source: "fst (resolve_source env_ok sid1 series_one (fresh db_cold)) = Inr (Some source_one)"
    by (simp add: resolve_source_def pick_source_def fresh_def db_cold_def source_one_def)
  have scraper: "scrapers env_ok (ss_source_name source_one) = Some (\<lambda>id. Inr [''1'', ''2''])"
    by (simp add: env_ok_def source_one_def)
  have needs: "\<not> already_synced sid1 (st_db (fresh db_cold))"
    by (simp add: already_synced_def chapter_count_def fresh_def db_cold_def)
  have z: "scrapes (fresh db_cold) = 0"
    by (simp add: scrapes_def fresh_def)
  note t = C4_contended_calls_fetch_once [OF lock_id_sid1 free nf(1) nf(1) nf(2) nf(3) nf(4)
      series source scraper needs]
  from t have a: "fst (acquire env_ok 523934766 (fresh db_cold)) = Inr True"
    by (rule conjunct1)
  from t have b: "scrapes (snd (performOnDemandSync env_ok sid1
      (snd (acquire env_ok 523934766 (fresh db_cold))))) = scrapes (fresh db_cold)"
    by blast
  from t have c: "scrapes (snd (locked_section env_ok sid1 523934766
      (snd (performOnDemandSync env_ok sid1 (snd (acquire env_ok 523934766 (fresh db_cold)))))))
        = scrapes (fresh db_cold) + 1"
    by blast
  show ?thesis
    using lock_id_sid1 free needs source a b c by (simp only: z) simp
qed

text \<open>
  Claim C4 as stated promises this for every series. On a series with no bound source
  and no MangaDex id it fails: \<open>A\<close> acquires the lock, \<open>B\<close> runs while the lock is held
  and skips, and \<open>A\<close>'s locked section returns at the missing source without a fetch.
  Neither call throws, and no call fetches.
\<close>

theorem C4_counterexample:
  "lock_id sid1 = Some 523934766
   \<and> fst (acquire env_ok 523934766 (fresh db_unbound)) = Inr True
   \<and> fst (performOnDemandSync env_ok sid1 (snd (acquire env_ok 523934766 (fresh db_unbound)))) = None
   \<and> scrapes (snd (performOnDemandSync env_ok sid1
        (snd (acquire env_ok 523934766 (fresh db_unbound))))) = 0
   \<and> fst (locked_section env_ok sid1 523934766
        (snd (performOnDemandSync env_ok sid1
          (snd (acquire env_ok 523934766 (fresh db_unbound)))))) = Inr ()
   \<and> scrapes (snd (locked_section env_ok sid1 523934766
        (snd (performOnDemandSync env_ok sid1
          (snd (acquire env_ok 523934766 (fresh db_unbound))))))) = 0"
  by (simp add: lock_id_sid1 sync_eval)

section \<open>Properties of the alerting service\<close>

lemma run_handlers_no_alert:
  "concat (map (\<lambda>x. case x of AlertLogged a \<Rightarrow> [a] | _ \<Rightarrow> []) (run_handlers i hs a)) = []"
  by (induction hs arbitrary: i) (simp_all split: option.splits)

lemma sendAlert_dispatched:
  "dispatched (sendAlert now a st) =
     (if in_cooldown now (lastAlertTime st (alertKey a)) then dispatched st
      else dispatched st @ [a])"
  by (simp add: sendAlert_def dispatched_def run_handlers_no_alert)

lemma sendAlert_lastAlertTime:
  "lastAlertTime (sendAlert now a st) =
     (if in_cooldown now (lastAlertTime st (alertKey a)) then lastAlertTime st
      else (lastAlertTime st)(alertKey a \<mapsto> now))"
  by (simp add: sendAlert_def)

lemma second_send_suppressed:
  assumes "now1 \<noteq> 0" and "now2 - now1 < alertCooldownMs"
    and "alertKey a2 = alertKey a1"
    and "\<not> in_cooldown now1 (lastAlertTime st (alertKey a1))"
  shows "sendAlert now2 a2 (sendAlert now1 a1 st) = sendAlert now1 a1 st"
proof -
  have "in_cooldown now2 (lastAlertTime (sendAlert now1 a1 st) (alertKey a2))"
    using assms by (simp add: sendAlert_lastAlertTime in_cooldown_def)
  then show ?thesis
    by (simp add: sendAlert_def [of now2])
qed

lemma two_sends_at_most_one:
  assumes "now1 \<noteq> 0" and "now2 - now1 < alertCooldownMs"
    and "alertKey a2 = alertKey a1"
  shows "length (dispatched (sendAlert now2 a2 (sendAlert now1 a1 st))) \<le> length (dispatched st) + 1"
proof (cases "in_cooldown now1 (lastAlertTime st (alertKey a1))")
  case True
  then have "sendAlert now1 a1 st = st" by (simp add: sendAlert_def)
  then show ?thesis by (simp add: sendAlert_dispatched)
next
  case False
  with assms have "sendAlert now2 a2 (sendAlert now1 a1 st) = sendAlert now1 a1 st"
    by (rule second_send_suppressed)
  with False show ?thesis by (simp add: sendAlert_dispatched)
qed

lemma check_critical:
  "th_critical th \<le> c \<Longrightarrow>
   checkDLQThresholds stamp now c th st = sendAlert now (critical_alert stamp c th) st"
  by (simp add: checkDLQThresholds_def critical_alert_def)

lemma critical_key: "alertKey (critical_alert stamp c th) = ''dlq_critical:global''"
  by (simp add: alertKey_def critical_alert_def)

text \<open>
  Claim C9. Let two calls read the clock at \<open>now1\<close> and \<open>now2\<close>, the second less than
  the cooldown of five minutes after the first (the clock being positive, as every
  \<^verbatim>\<open>Date.now()\<close> after 1970 is). Two calls of \<open>checkDLQThresholds\<close> with counts at or
  above the critical threshold dispatch at most one alert, and exactly one, the first
  call's, when no alert of the key \<^verbatim>\<open>dlq_critical:global\<close> was sent within the cooldown
  before the first call. For every alert type and entity, a second \<open>sendAlert\<close> with
  the same key within the cooldown of a send that went out changes nothing: it is
  suppressed by the entry the first send left in \<open>lastAlertTime\<close>.
\<close>

theorem C9_alert_cooldown:
  assumes clock: "0 < now1" and within: "now2 - now1 < alertCooldownMs"
  shows "(th_critical th \<le> c1 \<longrightarrow> th_critical th \<le> c2 \<longrightarrow>
            length (dispatched (checkDLQThresholds stamp2 now2 c2 th
                                  (checkDLQThresholds stamp1 now1 c1 th st)))
              \<le> length (dispatched st) + 1
          \<and> (\<not> in_cooldown now1 (lastAlertTime st ''dlq_critical:global'') \<longrightarrow>
                dispatched (checkDLQThresholds stamp2 now2 c2 th
                              (checkDLQThresholds stamp1 now1 c1 th st))
                  = dispatched st @ [critical_alert stamp1 c1 th]))
       \<and> (alertKey a2 = alertKey a1 \<longrightarrow>
            \<not> in_cooldown now1 (lastAlertTime st (alertKey a1)) \<longrightarrow>
            sendAlert now2 a2 (sendAlert now1 a1 st) = sendAlert now1 a1 st
            \<and> dispatched (sendAlert now1 a1 st) = dispatched st @ [a1])"
proof (intro conjI impI)
  assume c: "th_critical th \<le> c1" "th_critical th \<le> c2"
  from clock have n: "now1 \<noteq> 0" by simp
  show "length (dispatched (checkDLQThresholds stamp2 now2 c2 th
                                  (checkDLQThresholds stamp1 now1 c1 th st)))
              \<le> length (dispatched st) + 1"
    using c two_sends_at_most_one [OF n within, of "critical_alert stamp2 c2 th"
        "critical_alert stamp1 c1 th" st]
    by (simp add: check_critical critical_key)
  show "dispatched (checkDLQThresholds stamp2 now2 c2 th
                              (checkDLQThresholds stamp1 now1 c1 th st))
                  = dispatched st @ [critical_alert stamp1 c1 th]"
    if "\<not> in_cooldown now1 (lastAlertTime st ''dlq_critical:global'')"
    using that c second_send_suppressed [OF n within, of "critical_alert stamp2 c2 th"
        "critical_alert stamp1 c1 th" st]
    by (simp add: check_critical critical_key sendAlert_dispatched)
next
  assume k: "alertKey a2 = alertKey a1" and f: "\<not> in_cooldown now1 (lastAlertTime st (alertKey a1))"
  from clock have n: "now1 \<noteq> 0" by simp
  show "sendAlert now2 a2 (sendAlert now1 a1 st) = sendAlert now1 a1 st"
    using n within k f by (rule second_send_suppressed)
  show "dispatched (sendAlert now1 a1 st) = dispatched st @ [a1]"
    using f by (simp add: sendAlert_dispatched)
qed

theorem C9_alert_cooldown_witness:
  "(0::int) < 1700000000000 \<and> (1700000240000::int) - 1700000000000 < alertCooldownMs \<and>
   th_critical default_thresholds \<le> 501 \<and> th_critical default_thresholds \<le> 730 \<and>
   \<not> in_cooldown 1700000000000 (lastAlertTime new_service ''dlq_critical:global'') \<and>
   dispatched (checkDLQThresholds 1700000240000 1700000240000 730 default_thresholds
                (checkDLQThresholds 1700000000000 1700000000000 501 default_thresholds new_service))
     = [critical_alert 1700000000000 501 default_thresholds] \<and>
   alertKey (source_alert 1700000240000 9) = alertKey (source_alert 1700000000000 7) \<and>
   \<not> in_cooldown 1700000000000 (lastAlertTime new_service (alertKey (source_alert 1700000000000 7))) \<and>
   dispatched (sendAlert 1700000240000 (source_alert 1700000240000 9)
                (sendAlert 1700000000000 (source_alert 1700000000000 7) new_service))
     = [source_alert 1700000000000 7]"
proof -
  have a: "(0::int) < 1700000000000" by simp
  have b: "(1700000240000::int) - 1700000000000 < alertCooldownMs"
    by (simp add: alertCooldownMs_def)
  have c: "th_critical default_thresholds \<le> 501" "th_critical default_thresholds \<le> 730"
    by (simp_all add: default_thresholds_def)
  have d: "\<not> in_cooldown 1700000000000 (lastAlertTime new_service ''dlq_critical:global'')"
    by (simp add: in_cooldown_def new_service_def)
  have e: "dispatched new_service = []"
    by (simp add: dispatched_def new_service_def)
  have f: "alertKey (source_alert 1700000240000 9) = alertKey (source_alert 1700000000000 7)"
    by (simp add: alertKey_def source_alert_def)
  have g: "\<not> in_cooldown 1700000000000
      (lastAlertTime new_service (alertKey (source_alert 1700000000000 7)))"
    by (simp add: in_cooldown_def new_service_def)
  from C9_alert_cooldown [OF a b, where th = default_thresholds and ?c1.0 = 501 and ?c2.0 = 730
         and ?a2.0 = "source_alert 1700000240000 9" and ?a1.0 = "source_alert 1700000000000 7"
         and st = new_service and ?stamp2.0 = 1700000240000 and ?stamp1.0 = 1700000000000]
  show ?thesis
    using a b c d e f g by simp
qed

section \<open>Properties of the rate-limit store\<close>

subsection \<open>Each operation keeps the bound\<close>

lemma cleanup_length: "length (store (cleanup now s)) \<le> length (store s)"
proof -
  have "length (filter P (filter Q es)) \<le> length es" for P Q and es :: "(string \<times> rl_entry) list"
    by (meson le_trans length_filter_le)
  then show ?thesis
    by (simp add: cleanup_def Let_def)
qed

lemma cleanup_maxEntries: "maxEntries (cleanup now s) = maxEntries s"
  by (simp add: cleanup_def Let_def)

lemma keys_ok_filter:
  "distinct (map fst es) \<and> [] \<notin> fst ` set es \<Longrightarrow>
   distinct (map fst (filter P es)) \<and> [] \<notin> fst ` set (filter P es)"
  by (auto simp add: distinct_map_filter)

lemma cleanup_keys_ok: "keys_ok s \<Longrightarrow> keys_ok (cleanup now s)"
  unfolding keys_ok_def cleanup_def Let_def
  by (auto simp add: distinct_map_filter)

lemma oldest_scan_key:
  "fst (oldest_scan acc es) = fst acc \<or> (\<exists>k \<in> fst ` set es. fst (oldest_scan acc es) = Some k)"
  by (induction es arbitrary: acc) (auto, metis+)

lemma oldest_scan_start:
  "es \<noteq> [] \<Longrightarrow> \<exists>k \<in> fst ` set es. fst (oldest_scan (None, None) es) = Some k"
proof (cases es)
  case Nil
  assume "es \<noteq> []"
  with Nil show ?thesis by simp
next
  case (Cons p ps)
  with oldest_scan_key [of "(Some (fst p), Some (rl_resetTime (snd p)))" ps]
  show ?thesis by auto
qed

lemma store_delete_length:
  "distinct (map fst es) \<Longrightarrow> k \<in> fst ` set es \<Longrightarrow>
   length (store_delete k es) = length es - 1"
proof (induction es)
  case Nil
  then show ?case by simp
next
  case (Cons p es)
  show ?case
  proof (cases "fst p = k")
    case True
    with Cons.prems have "k \<notin> fst ` set es" by auto
    then have "filter (\<lambda>q. fst q \<noteq> k) es = es"
      by (auto simp add: filter_id_conv)
    with True show ?thesis by (simp add: store_delete_def)
  next
    case False
    with Cons.prems have "k \<in> fst ` set es" by auto
    with Cons False have "length (store_delete k es) = length es - 1" by simp
    moreover from \<open>k \<in> fst ` set es\<close> have "es \<noteq> []" by auto
    ultimately show ?thesis using False by (cases es) (simp_all add: store_delete_def)
  qed
qed

lemma evict_oldest_length:
  assumes "keys_ok s" and "store s \<noteq> []"
  shows "length (store (evict_oldest s)) = length (store s) - 1"
proof -
  from oldest_scan_start [OF assms(2)] obtain k where
    k: "k \<in> fst ` set (store s)" "fst (oldest_scan (None, None) (store s)) = Some k"
    by blast
  from k(1) assms(1) have "k \<noteq> []"
    unfolding keys_ok_def by blast
  with k assms(1) show ?thesis
    by (simp add: evict_oldest_def keys_ok_def store_delete_length)
qed

lemma evict_oldest_keys_ok: "keys_ok s \<Longrightarrow> keys_ok (evict_oldest s)"
  unfolding keys_ok_def evict_oldest_def store_delete_def
  by (auto simp add: distinct_map_filter split: option.splits)

lemma evict_oldest_maxEntries: "maxEntries (evict_oldest s) = maxEntries s"
  by (simp add: evict_oldest_def split: option.splits)

lemma store_set_length: "length (store_set key v es) \<le> length es + 1"
  by (simp add: store_set_def)

lemma store_set_keys:
  "map fst (store_set key v es) = (if key \<in> fst ` set es then map fst es else map fst es @ [key])"
  by (auto simp add: store_set_def)

lemma store_set_keys_ok:
  assumes "distinct (map fst es)" and "[] \<notin> fst ` set es" and "key \<noteq> []"
  shows "distinct (map fst (store_set key v es)) \<and> [] \<notin> fst ` set (store_set key v es)"
proof -
  have img: "fst ` set (store_set key v es) = set (map fst (store_set key v es))"
    by simp
  show ?thesis
  proof (cases "key \<in> fst ` set es")
    case True
    then have "map fst (store_set key v es) = map fst es"
      by (simp add: store_set_keys)
    with assms show ?thesis
      unfolding img by simp
  next
    case False
    then have "map fst (store_set key v es) = map fst es @ [key]"
      by (simp add: store_set_keys)
    with assms False show ?thesis
      unfolding img by auto
  qed
qed

lemma set_entry_bound:
  assumes ok: "keys_ok s" and key: "key \<noteq> []" and pos: "1 \<le> maxEntries s"
    and le: "length (store s) \<le> maxEntries s"
  shows "length (store (set_entry now key v s)) \<le> maxEntries s
       \<and> keys_ok (set_entry now key v s)
       \<and> maxEntries (set_entry now key v s) = maxEntries s"
proof -
  define s1 where "s1 = (if length (store s) \<ge> maxEntries s then cleanup now s else s)"
  define s2 where "s2 = (if length (store s1) \<ge> maxEntries s1 then evict_oldest s1 else s1)"
  have s1: "keys_ok s1" "maxEntries s1 = maxEntries s" "length (store s1) \<le> maxEntries s"
    using ok le cleanup_length [of now s]
    by (auto simp add: s1_def cleanup_keys_ok cleanup_maxEntries)
  have s2: "keys_ok s2" "maxEntries s2 = maxEntries s"
    using s1 by (auto simp add: s2_def evict_oldest_keys_ok evict_oldest_maxEntries)
  have room: "length (store s2) + 1 \<le> maxEntries s"
  proof (cases "length (store s1) \<ge> maxEntries s1")
    case True
    with s1 pos have "store s1 \<noteq> []" by auto
    with s1(1) have "length (store (evict_oldest s1)) = length (store s1) - 1"
      by (rule evict_oldest_length)
    with True s1 pos show ?thesis by (simp add: s2_def)
  next
    case False
    with s1 show ?thesis by (simp add: s2_def)
  qed
  have unf: "set_entry now key v s = s2\<lparr> store := store_set key v (store s2) \<rparr>"
    by (simp add: set_entry_def Let_def s1_def s2_def)
  have "length (store_set key v (store s2)) \<le> maxEntries s"
    using room store_set_length [of key v "store s2"] by simp
  moreover have "keys_ok (s2\<lparr> store := store_set key v (store s2) \<rparr>)"
    using s2(1) key store_set_keys_ok [of "store s2" key v] by (simp add: keys_ok_def)
  ultimately show ?thesis
    using s2(2) by (simp add: unf)
qed

lemma apply_op_bounded:
  assumes "bounded s" and "[] \<notin> set (op_keys x)"
  shows "bounded (apply_op x s) \<and> maxEntries (apply_op x s) = maxEntries s"
proof (cases x)
  case (Get key)
  with assms show ?thesis by simp
next
  case (Set now key v)
  with assms set_entry_bound [of s key now v] show ?thesis
    by (simp add: bounded_def)
next
  case (TriggerCleanup now)
  with assms cleanup_length [of now s] show ?thesis
    by (simp add: bounded_def cleanup_keys_ok cleanup_maxEntries)
qed

lemma run_ops_bounded:
  assumes "bounded s" and "\<forall>x \<in> set ops. [] \<notin> set (op_keys x)"
  shows "bounded (run_ops ops s) \<and> maxEntries (run_ops ops s) = maxEntries s"
  using assms
proof (induction ops arbitrary: s)
  case Nil
  then show ?case by simp
next
  case (Cons x ops)
  from Cons.prems have "bounded (apply_op x s) \<and> maxEntries (apply_op x s) = maxEntries s"
    by (simp add: apply_op_bounded)
  with Cons.IH [of "apply_op x s"] Cons.prems(2) show ?case by simp
qed

subsection \<open>The entry that is evicted\<close>

lemma oldest_scan_from:
  "\<exists>k t. oldest_scan (ok, Some t0) es = (k, Some t) \<and> t \<le> t0
      \<and> (\<forall>p \<in> set es. t \<le> rl_resetTime (snd p))
      \<and> ((k = ok \<and> t = t0) \<or> (\<exists>p \<in> set es. k = Some (fst p) \<and> t = rl_resetTime (snd p)))"
proof (induction es arbitrary: ok t0)
  case Nil
  show ?case by simp
next
  case (Cons p ps)
  show ?case
  proof (cases "rl_resetTime (snd p) < t0")
    case True
    from Cons [of "Some (fst p)" "rl_resetTime (snd p)"] obtain k t where
      r: "oldest_scan (Some (fst p), Some (rl_resetTime (snd p))) ps = (k, Some t)"
         "t \<le> rl_resetTime (snd p)" "\<forall>q \<in> set ps. t \<le> rl_resetTime (snd q)"
         "(k = Some (fst p) \<and> t = rl_resetTime (snd p)) \<or>
            (\<exists>q \<in> set ps. k = Some (fst q) \<and> t = rl_resetTime (snd q))"
      by blast
    have a: "oldest_scan (ok, Some t0) (p # ps) = (k, Some t)"
      using True r(1) by simp
    have b: "t \<le> t0" using True r(2) by simp
    have c: "\<forall>q \<in> set (p # ps). t \<le> rl_resetTime (snd q)"
      using r(2,3) by simp
    have d: "\<exists>q \<in> set (p # ps). k = Some (fst q) \<and> t = rl_resetTime (snd q)"
      using r(4) by auto
    from a b c d show ?thesis by blast
  next
    case False
    from Cons [of ok t0] obtain k t where
      r: "oldest_scan (ok, Some t0) ps = (k, Some t)"
         "t \<le> t0" "\<forall>q \<in> set ps. t \<le> rl_resetTime (snd q)"
         "(k = ok \<and> t = t0) \<or> (\<exists>q \<in> set ps. k = Some (fst q) \<and> t = rl_resetTime (snd q))"
      by blast
    have a: "oldest_scan (ok, Some t0) (p # ps) = (k, Some t)"
      using False r(1) by simp
    have c: "\<forall>q \<in> set (p # ps). t \<le> rl_resetTime (snd q)"
      using False r(2,3) by simp
    have d: "(k = ok \<and> t = t0) \<or>
        (\<exists>q \<in> set (p # ps). k = Some (fst q) \<and> t = rl_resetTime (snd q))"
      using r(4) by auto
    from a r(2) c d show ?thesis by blast
  qed
qed

lemma oldest_scan_minimum:
  assumes "es \<noteq> []"
  shows "\<exists>k e. fst (oldest_scan (None, None) es) = Some k \<and> (k, e) \<in> set es
           \<and> (\<forall>p \<in> set es. rl_resetTime e \<le> rl_resetTime (snd p))"
proof -
  from assms obtain p ps where es: "es = p # ps" by (cases es) auto
  from oldest_scan_from [of "Some (fst p)" "rl_resetTime (snd p)" ps]
  obtain k t where r: "oldest_scan (Some (fst p), Some (rl_resetTime (snd p))) ps = (k, Some t)"
    "t \<le> rl_resetTime (snd p)" "\<forall>q \<in> set ps. t \<le> rl_resetTime (snd q)"
    "(k = Some (fst p) \<and> t = rl_resetTime (snd p)) \<or>
       (\<exists>q \<in> set ps. k = Some (fst q) \<and> t = rl_resetTime (snd q))"
    by blast
  have "\<exists>q. q \<in> set es \<and> k = Some (fst q) \<and> t = rl_resetTime (snd q)"
  proof (rule disjE [OF r(4)])
    assume "k = Some (fst p) \<and> t = rl_resetTime (snd p)"
    then show ?thesis using es by (intro exI [of _ p]) simp
  next
    assume "\<exists>q \<in> set ps. k = Some (fst q) \<and> t = rl_resetTime (snd q)"
    then show ?thesis using es by auto
  qed
  then obtain q where q: "q \<in> set es" "k = Some (fst q)" "t = rl_resetTime (snd q)"
    by blast
  have "fst (oldest_scan (None, None) es) = Some (fst q)"
    using es r(1) q(2) by simp
  moreover have "(fst q, snd q) \<in> set es" using q(1) by simp
  moreover have "\<forall>x \<in> set es. rl_resetTime (snd q) \<le> rl_resetTime (snd x)"
    using es r(2,3) q(3) by auto
  ultimately show ?thesis by blast
qed

lemma evict_oldest_minimum:
  assumes "keys_ok s" and "store s \<noteq> []"
  shows "\<exists>k e. (k, e) \<in> set (store s)
           \<and> (\<forall>p \<in> set (store s). rl_resetTime e \<le> rl_resetTime (snd p))
           \<and> store (evict_oldest s) = store_delete k (store s)"
proof -
  from oldest_scan_minimum [OF assms(2)] obtain k e where
    k: "fst (oldest_scan (None, None) (store s)) = Some k" "(k, e) \<in> set (store s)"
       "\<forall>p \<in> set (store s). rl_resetTime e \<le> rl_resetTime (snd p)"
    by blast
  from k(2) have "k \<in> fst ` set (store s)" by force
  with assms(1) have "k \<noteq> []" unfolding keys_ok_def by blast
  with k show ?thesis
    by (auto simp add: evict_oldest_def)
qed

lemma set_entry_throttled:
  assumes "maxEntries s \<le> length (store s)" and "now - lastCleanup s < cleanupInterval"
  shows "set_entry now key v s =
           (evict_oldest s)\<lparr> store := store_set key v (store (evict_oldest s)) \<rparr>"
  using assms by (simp add: set_entry_def cleanup_def Let_def)

lemma cleanup_evicts_expired:
  assumes "cleanupInterval \<le> now - lastCleanup s"
  shows "\<forall>p \<in> set (store (cleanup now s)). now \<le> rl_resetTime (snd p)"
  using assms by (auto simp add: cleanup_def Let_def)

lemma new_store_bounded: "1 \<le> m \<Longrightarrow> bounded (new_store m t0)"
  by (simp add: bounded_def keys_ok_def new_store_def)

subsection \<open>The middleware's use of the store\<close>

text \<open>The key the middleware builds is never empty, and a \<open>checkRateLimit\<close> call with a
  non-empty key keeps the invariant.\<close>

lemma checkRateLimit_bounded:
  assumes "bounded s" and "key \<noteq> []"
  shows "bounded (snd (checkRateLimit t0 now t2 key limit windowMs s))"
proof -
  have c: "bounded (cleanup t0 s)"
    using assms(1) apply_op_bounded [of s "TriggerCleanup t0"] by simp
  have "bounded (set_entry t2 key v (cleanup t0 s))" for v
    using c assms(2) apply_op_bounded [of "cleanup t0 s" "Set t2 key v"] by simp
  then show ?thesis
    by (simp add: checkRateLimit_def Let_def split: option.splits)
qed

lemma rate_key_nonempty: "rate_key tier ip \<noteq> []"
  by (simp add: rate_key_def)

lemma flood_keys: "\<forall>x \<in> set (flood n). [] \<notin> set (op_keys x)"
  by (auto simp add: flood_def filler_key_def)

subsection \<open>The bound along every sequence of operations\<close>

text \<open>
  Claim C10, as amended. Take a store created with a maximum of at least one entry (the
  middleware's has 10000) and any sequence of get, set and cleanup operations whose keys
  are not the empty string (the middleware's keys \<^verbatim>\<open>tier:ip\<close> never are). After every
  prefix of the sequence the number of stored entries is at most the maximum. In every
  state so reached, a set on a store at capacity less than one minute after the last
  cleanup runs no cleanup: it evicts one entry and inserts. A set on a store at capacity
  one minute or more after the last cleanup first removes every expired entry, then
  evicts one more entry only if the store is still at capacity, and inserts. The entry
  evicted from a non-empty store has the least reset time of all stored entries.
\<close>

theorem C10_store_bounded:
  assumes "1 \<le> m" and "\<forall>x \<in> set ops. [] \<notin> set (op_keys x)"
  shows "\<forall>n. length (store (run_ops (take n ops) (new_store m t0))) \<le> m
           \<and> (\<forall>now key v.
                 m \<le> length (store (run_ops (take n ops) (new_store m t0))) \<longrightarrow>
                 now - lastCleanup (run_ops (take n ops) (new_store m t0)) < cleanupInterval \<longrightarrow>
                 set_entry now key v (run_ops (take n ops) (new_store m t0)) =
                   (evict_oldest (run_ops (take n ops) (new_store m t0)))\<lparr> store := store_set key v (store (evict_oldest (run_ops (take n ops) (new_store m t0)))) \<rparr>)
           \<and> (\<forall>now key v.
                 m \<le> length (store (run_ops (take n ops) (new_store m t0))) \<longrightarrow>
                 cleanupInterval \<le> now - lastCleanup (run_ops (take n ops) (new_store m t0)) \<longrightarrow>
                 (\<forall>p \<in> set (store (cleanup now (run_ops (take n ops) (new_store m t0)))). now \<le> rl_resetTime (snd p))
                 \<and> set_entry now key v (run_ops (take n ops) (new_store m t0)) =
                     (if m \<le> length (store (cleanup now (run_ops (take n ops) (new_store m t0))))
                      then (evict_oldest (cleanup now (run_ops (take n ops) (new_store m t0))))
                             \<lparr> store := store_set key v (store (evict_oldest (cleanup now (run_ops (take n ops) (new_store m t0))))) \<rparr>
                      else (cleanup now (run_ops (take n ops) (new_store m t0)))
                             \<lparr> store := store_set key v (store (cleanup now (run_ops (take n ops) (new_store m t0)))) \<rparr>))
           \<and> (store (run_ops (take n ops) (new_store m t0)) \<noteq> [] \<longrightarrow>
                 (\<exists>k e. (k, e) \<in> set (store (run_ops (take n ops) (new_store m t0)))
                    \<and> (\<forall>p \<in> set (store (run_ops (take n ops) (new_store m t0))). rl_resetTime e \<le> rl_resetTime (snd p))
                    \<and> store (evict_oldest (run_ops (take n ops) (new_store m t0))) = store_delete k (store (run_ops (take n ops) (new_store m t0)))))"
proof
  fix n
  let ?s = "run_ops (take n ops) (new_store m t0)"
  have keys: "\<forall>x \<in> set (take n ops). [] \<notin> set (op_keys x)"
    using assms(2) by (meson in_set_takeD)
  from run_ops_bounded [OF new_store_bounded [OF assms(1)] keys, of t0]
  have b: "bounded ?s" and mx: "maxEntries ?s = m"
    by (simp_all add: new_store_def)
  have 1: "length (store ?s) \<le> m"
    using b mx by (simp add: bounded_def)
  have 2: "set_entry now key v ?s = (evict_oldest ?s)\<lparr> store := store_set key v (store (evict_oldest ?s)) \<rparr>"
    if "m \<le> length (store ?s)" "now - lastCleanup ?s < cleanupInterval" for now key v
    using that mx set_entry_throttled [of ?s now key v] by simp
  have 3: "(\<forall>p \<in> set (store (cleanup now ?s)). now \<le> rl_resetTime (snd p))
      \<and> set_entry now key v ?s =
            (if m \<le> length (store (cleanup now ?s))
             then (evict_oldest (cleanup now ?s))
                    \<lparr> store := store_set key v (store (evict_oldest (cleanup now ?s))) \<rparr>
             else (cleanup now ?s)
                    \<lparr> store := store_set key v (store (cleanup now ?s)) \<rparr>)"
    if "m \<le> length (store ?s)" "cleanupInterval \<le> now - lastCleanup ?s" for now key v
    using that mx cleanup_evicts_expired [of now ?s] cleanup_maxEntries [of now ?s]
    by (simp add: set_entry_def Let_def)
  have 4: "\<exists>k e. (k, e) \<in> set (store ?s)
      \<and> (\<forall>p \<in> set (store ?s). rl_resetTime e \<le> rl_resetTime (snd p))
      \<and> store (evict_oldest ?s) = store_delete k (store ?s)"
    if "store ?s \<noteq> []"
    using b that evict_oldest_minimum [of ?s] by (simp add: bounded_def)
  from 1 2 3 4 show "length (store ?s) \<le> m
           \<and> (\<forall>now key v.
                 m \<le> length (store ?s) \<longrightarrow>
                 now - lastCleanup ?s < cleanupInterval \<longrightarrow>
                 set_entry now key v ?s =
                   (evict_oldest ?s)\<lparr> store := store_set key v (store (evict_oldest ?s)) \<rparr>)
           \<and> (\<forall>now key v.
                 m \<le> length (store ?s) \<longrightarrow>
                 cleanupInterval \<le> now - lastCleanup ?s \<longrightarrow>
                 (\<forall>p \<in> set (store (cleanup now ?s)). now \<le> rl_resetTime (snd p))
                 \<and> set_entry now key v ?s =
                     (if m \<le> length (store (cleanup now ?s))
                      then (evict_oldest (cleanup now ?s))
                             \<lparr> store := store_set key v (store (evict_oldest (cleanup now ?s))) \<rparr>
                      else (cleanup now ?s)
                             \<lparr> store := store_set key v (store (cleanup now ?s)) \<rparr>))
           \<and> (store ?s \<noteq> [] \<longrightarrow>
                 (\<exists>k e. (k, e) \<in> set (store ?s)
                    \<and> (\<forall>p \<in> set (store ?s). rl_resetTime e \<le> rl_resetTime (snd p))
                    \<and> store (evict_oldest ?s) = store_delete k (store ?s)))"
    by blast
qed

theorem C10_store_bounded_witness:
  "(1::nat) \<le> 2 \<and> list_all (\<lambda>x. [] \<notin> set (op_keys x)) small_ops \<and>
   length (store (run_ops (take 5 small_ops) (new_store 2 0))) \<le> 2 \<and>
   store (run_ops small_ops (new_store 2 0)) =
     [(''public:10.0.0.2'', small_entry\<lparr> rl_resetTime := 60001 \<rparr>),
      (''auth:10.0.0.3'', small_entry\<lparr> rl_resetTime := 60003 \<rparr>)] \<and>
   (1::nat) \<le> 10000 \<and> list_all (\<lambda>x. [] \<notin> set (op_keys x)) (flood 10000 @ [Set 5 ''x'' filler_entry]) \<and>
   length (store (run_ops (take 10001 (flood 10000 @ [Set 5 ''x'' filler_entry])) (new_store 10000 0)))
     \<le> 10000"
proof -
  have a: "(1::nat) \<le> 2" by simp
  have b: "\<forall>x \<in> set small_ops. [] \<notin> set (op_keys x)"
    by (simp add: small_ops_def)
  have c: "store (run_ops small_ops (new_store 2 0)) =
     [(''public:10.0.0.2'', small_entry\<lparr> rl_resetTime := 60001 \<rparr>),
      (''auth:10.0.0.3'', small_entry\<lparr> rl_resetTime := 60003 \<rparr>)]"
    by (simp add: small_ops_def new_store_def set_entry_def cleanup_def cleanupInterval_def
        evict_oldest_def store_set_def store_delete_def small_entry_def Let_def)
  have d: "(1::nat) \<le> 10000" by simp
  have e: "\<forall>x \<in> set (flood 10000 @ [Set 5 ''x'' filler_entry]). [] \<notin> set (op_keys x)"
    using flood_keys [of 10000] by simp
  from C10_store_bounded [OF a b, of 0] C10_store_bounded [OF d e, of 0]
  have "length (store (run_ops (take 5 small_ops) (new_store 2 0))) \<le> 2"
    and "length (store (run_ops (take 10001 (flood 10000 @ [Set 5 ''x'' filler_entry]))
           (new_store 10000 0))) \<le> 10000"
    by blast+
  with a b c d e show ?thesis
    by (simp only: list_all_iff)
qed

subsection \<open>Where the store departs from the claim as stated\<close>

lemma run_ops_append: "run_ops (xs @ ys) s = run_ops ys (run_ops xs s)"
  by (induction xs arbitrary: s) simp_all

lemma flood_Suc: "flood (Suc n) = flood n @ [Set 0 (filler_key n) filler_entry]"
  by (simp add: flood_def)

lemma filler_Suc: "filler (Suc n) = filler n @ [(filler_key n, filler_entry)]"
  by (simp add: filler_def)

lemma filler_length: "length (filler n) = n"
  by (simp add: filler_def)

lemma filler_keys: "fst ` set (filler n) = filler_key ` {0..<n}"
  by (simp add: filler_def image_image)

lemma filler_key_inj: "filler_key i = filler_key j \<Longrightarrow> i = j"
proof -
  assume "filler_key i = filler_key j"
  then have "length (filler_key i) = length (filler_key j)" by simp
  then show "i = j" by (simp add: filler_key_def)
qed

lemma filler_key_fresh: "filler_key n \<notin> fst ` set (filler n)"
proof
  assume "filler_key n \<in> fst ` set (filler n)"
  then obtain i where "i < n" "filler_key n = filler_key i"
    unfolding filler_keys by auto
  then show False
    using filler_key_inj [of n i] by simp
qed

lemma filler_distinct: "distinct (map fst (filler n))"
proof (induction n)
  case 0
  show ?case by (simp add: filler_def)
next
  case (Suc n)
  have "map fst (filler (Suc n)) = map fst (filler n) @ [filler_key n]"
    by (simp add: filler_Suc)
  moreover have "filler_key n \<notin> set (map fst (filler n))"
    using filler_key_fresh [of n] by simp
  ultimately show ?case using Suc by simp
qed

lemma x_not_filler: "''x'' \<notin> fst ` set (filler n)"
  unfolding filler_keys by (simp add: filler_key_def image_iff)

lemma store_delete_keys: "fst ` set (store_delete k es) \<subseteq> fst ` set es"
  by (auto simp add: store_delete_def)

lemma filler_times: "\<forall>p \<in> set (filler n). rl_resetTime (snd p) = 2"
  by (simp add: filler_def filler_entry_def)

lemma flood_fills:
  assumes "\<forall>i. filler_key i \<notin> fst ` set pre" and "length pre + n \<le> m"
  shows "run_ops (flood n) \<lparr> store = pre, maxEntries = m, lastCleanup = 0 \<rparr> =
           \<lparr> store = pre @ filler n, maxEntries = m, lastCleanup = 0 \<rparr>"
  using assms(2)
proof (induction n)
  case 0
  show ?case by (simp add: flood_def filler_def)
next
  case (Suc n)
  then have ih: "run_ops (flood n) \<lparr> store = pre, maxEntries = m, lastCleanup = 0 \<rparr> =
           \<lparr> store = pre @ filler n, maxEntries = m, lastCleanup = 0 \<rparr>"
    and room: "length pre + n < m"
    by simp_all
  have new: "filler_key n \<notin> fst ` set (pre @ filler n)"
    using assms(1) filler_key_fresh [of n] by auto
  have "set_entry 0 (filler_key n) filler_entry
          \<lparr> store = pre @ filler n, maxEntries = m, lastCleanup = 0 \<rparr> =
        \<lparr> store = (pre @ filler n) @ [(filler_key n, filler_entry)], maxEntries = m, lastCleanup = 0 \<rparr>"
    using room new by (simp add: set_entry_def store_set_def filler_length)
  then show ?case
    by (simp add: flood_Suc run_ops_append ih filler_Suc)
qed

lemma oldest_scan_keeps:
  "\<forall>p \<in> set es. t0 \<le> rl_resetTime (snd p) \<Longrightarrow> oldest_scan (ok, Some t0) es = (ok, Some t0)"
  by (induction es) auto

lemma empty_key_overflows:
  assumes "1 \<le> m"
  shows "length (store (run_ops (Set 0 [] first_entry # flood m) (new_store m 0))) = m + 1"
proof -
  from assms obtain n where m: "m = Suc n" by (cases m) auto
  let ?pre = "[([], first_entry)]"
  have start: "apply_op (Set 0 [] first_entry) (new_store m 0) =
      \<lparr> store = ?pre, maxEntries = m, lastCleanup = 0 \<rparr>"
    using assms by (simp add: set_entry_def new_store_def store_set_def)
  have nokey: "\<forall>i. filler_key i \<notin> fst ` set ?pre"
    by (simp add: filler_key_def)
  have full: "run_ops (flood n) \<lparr> store = ?pre, maxEntries = m, lastCleanup = 0 \<rparr> =
      \<lparr> store = ?pre @ filler n, maxEntries = m, lastCleanup = 0 \<rparr>"
    using nokey by (rule flood_fills) (simp add: m)
  have scan: "oldest_scan (None, None) (?pre @ filler n) = (Some [], Some 1)"
    using oldest_scan_keeps [of "filler n" 1 "Some []"] filler_times [of n]
    by (simp add: first_entry_def)
  have new: "filler_key n \<notin> fst ` set (?pre @ filler n)"
    using filler_key_fresh [of n] by (simp add: filler_key_def)
  have last: "set_entry 0 (filler_key n) filler_entry
          \<lparr> store = ?pre @ filler n, maxEntries = m, lastCleanup = 0 \<rparr> =
        \<lparr> store = (?pre @ filler n) @ [(filler_key n, filler_entry)], maxEntries = m, lastCleanup = 0 \<rparr>"
    using new scan
    by (simp add: set_entry_def cleanup_def cleanupInterval_def evict_oldest_def store_set_def
        filler_length m)
  have "run_ops (Set 0 [] first_entry # flood m) (new_store m 0) =
      \<lparr> store = (?pre @ filler n) @ [(filler_key n, filler_entry)], maxEntries = m, lastCleanup = 0 \<rparr>"
    using start full last by (simp add: m flood_Suc run_ops_append)
  then show ?thesis by (simp add: filler_length m)
qed

lemma throttled_set_keeps_expired:
  assumes "1 \<le> m"
  shows "length (store (set_entry 5 ''x'' filler_entry (run_ops (flood m) (new_store m 0)))) = m
       \<and> length (store (set_as_claimed 5 ''x'' filler_entry (run_ops (flood m) (new_store m 0)))) = 1"
proof -
  from assms obtain n where m: "m = Suc n" by (cases m) auto
  have full: "run_ops (flood m) (new_store m 0) =
      \<lparr> store = filler m, maxEntries = m, lastCleanup = 0 \<rparr>"
    using flood_fills [of "[]" m m] by (simp add: new_store_def)
  have "[0..<m] = 0 # [Suc 0..<m]"
    using assms by (intro upt_conv_Cons) simp
  then have "filler m = (filler_key 0, filler_entry) # map (\<lambda>i. (filler_key i, filler_entry)) [Suc 0..<m]"
    by (simp only: filler_def list.map)
  then have hd: "filler m = (filler_key 0, filler_entry) # tl (filler m)"
    by simp
  have tl: "\<forall>p \<in> set (tl (filler m)). 2 \<le> rl_resetTime (snd p)"
  proof
    fix p
    assume "p \<in> set (tl (filler m))"
    then have "p \<in> set (filler m)"
      by (subst hd) simp
    then have "rl_resetTime (snd p) = 2"
      using filler_times [of m] by blast
    then show "2 \<le> rl_resetTime (snd p)" by simp
  qed
  have scan: "oldest_scan (None, None) (filler m) = (Some (filler_key 0), Some 2)"
    using oldest_scan_keeps [OF tl, of "Some (filler_key 0)"]
    by (subst hd) (simp add: filler_entry_def)
  have first: "filler_key 0 \<in> fst ` set (filler m)"
    by (subst hd) simp
  have del: "length (store_delete (filler_key 0) (filler m)) = m - 1"
    using store_delete_length [OF filler_distinct first] by (simp add: filler_length)
  have x: "''x'' \<notin> fst ` set (store_delete (filler_key 0) (filler m))"
    using x_not_filler [of m] store_delete_keys [of "filler_key 0" "filler m"] by blast
  have code: "length (store (set_entry 5 ''x'' filler_entry
                \<lparr> store = filler m, maxEntries = m, lastCleanup = 0 \<rparr>)) = m"
    using scan del x assms
    by (simp add: set_entry_def cleanup_def cleanupInterval_def evict_oldest_def store_set_def
        filler_length filler_key_def)
  have expired: "filter (\<lambda>p. \<not> 5 > rl_resetTime (snd p)) (filler m) = []"
    using filler_times [of m] by (simp add: filter_empty_conv)
  have claimed: "length (store (set_as_claimed 5 ''x'' filler_entry
                \<lparr> store = filler m, maxEntries = m, lastCleanup = 0 \<rparr>)) = 1"
    using expired assms
    by (simp add: set_as_claimed_def evict_expired_def store_set_def Let_def)
  from code claimed show ?thesis by (simp add: full)
qed

text \<open>
  Claim C10 as stated fails on the store of 10000 entries in two ways. First, after a set
  under the empty key with the least reset time and 10000 sets under fresh keys, the
  store holds 10001 entries: the scan finds the empty key, \<^verbatim>\<open>if (oldestKey)\<close> takes it
  for no key, and nothing is evicted. Second, \<open>set\<close> does not first evict the expired
  entries: on the store filled with 10000 entries of reset time 2, a set at clock reading
  5 (all entries expired, the last cleanup 5 ms old) evicts one entry and leaves 10000,
  where evicting the expired entries first would leave 1.
\<close>

theorem C10_counterexample:
  "length (store (run_ops (Set 0 [] first_entry # flood 10000) (new_store 10000 0))) = 10001
   \<and> length (store (set_entry 5 ''x'' filler_entry (run_ops (flood 10000) (new_store 10000 0)))) = 10000
   \<and> length (store (set_as_claimed 5 ''x'' filler_entry (run_ops (flood 10000) (new_store 10000 0)))) = 1"
proof -
  have m: "(1::nat) \<le> 10000" by simp
  from empty_key_overflows [OF m] throttled_set_keeps_expired [OF m]
  show ?thesis by simp
qed

end
